theory Spec2Isabelle
  imports Main "HOL-Library.Sublist"
begin

section \<open>Data model\<close>

text \<open>
  The update and reconciliation core of the editor (\<^verbatim>\<open>LexicalUpdates.ts\<close>, with
  \<^verbatim>\<open>resetEditor\<close> and \<^verbatim>\<open>LexicalEditor.read\<close> of \<^verbatim>\<open>LexicalEditor.ts\<close>), as explicit state
  passing over a record of everything the module reads and writes.

  Objects with identity are addresses: an editor is an \<open>eid\<close>, an \<^verbatim>\<open>EditorState\<close> object is
  an \<open>addr\<close> into the store \<open>states\<close>, the array of queued updates of an editor is a \<open>qaddr\<close>
  into the store \<open>queues\<close>. Callbacks (update functions, listeners, transforms,
  the error sink) are named by a \<open>cb\<close>; what a callback does is given by the environment
  (record \<open>env\<close> below), a parameter of every function of the model.
\<close>

type_synonym key = string
type_synonym eid = nat
type_synonym addr = nat
type_synonym cb = nat
type_synonym qaddr = nat

text \<open>A thrown JavaScript value: the source tests \<^verbatim>\<open>error instanceof Error\<close> before reporting.\<close>

datatype thrown = ErrorObject string | OtherValue string

datatype dirty_type = NO_DIRTY_NODES | HAS_DIRTY_NODES | FULL_RECONCILE

record lexical_node =
  nkey :: key
  ntype :: string
  isTextNode :: bool
  isSimpleText :: bool
  isUnmergeable :: bool

text \<open>A selection: a range selection (anchor key, focus key), a node selection (its node
  set) or any other selection object; each with its \<^verbatim>\<open>dirty\<close> flag.\<close>

datatype selection =
    RangeSelection key key bool
  | NodeSelection "key list" bool
  | OtherSelection bool

fun selectionDirty :: "selection \<Rightarrow> bool" where
  "selectionDirty (RangeSelection a f d) = d"
| "selectionDirty (NodeSelection ns d) = d"
| "selectionDirty (OtherSelection d) = d"

fun isRangeSelection :: "selection option \<Rightarrow> bool" where
  "isRangeSelection (Some (RangeSelection a f d)) = True"
| "isRangeSelection s = False"

record editor_state =
  nodeMap :: "key \<Rightarrow> lexical_node option"
  selection :: "selection option"
  flushSync :: bool
  readOnly :: bool

datatype tag_option = NoTag | OneTag string | ManyTags "string list"

record update_options =
  onUpdate :: "cb option"
  skipTransforms :: bool
  tag :: tag_option
  discrete :: bool
  event :: "nat option"

record registered_node =
  klass :: string
  klassType :: string
  transforms :: "cb list"

text \<open>\<^verbatim>\<open>MutatedNodes\<close>: node class to (key to mutation).\<close>

type_synonym mutated_nodes = "(string \<times> (key \<times> string) list) list"

text \<open>
  The editor. Five of its fields hold objects that the module also binds to constants of its
  functions and then replaces in the field: the sets \<^verbatim>\<open>_dirtyLeaves\<close>, \<^verbatim>\<open>_normalizedNodes\<close>
  and \<^verbatim>\<open>_updateTags\<close>, the map \<^verbatim>\<open>_dirtyElements\<close> and the array \<^verbatim>\<open>_deferred\<close>. For each
  of them the record has the content of the object that is in the field (\<open>dirtyLeaves\<close>) and
  the identity of that object (\<open>dirtyLeavesObj\<close>); the contents of the objects that have left
  their field are kept by identity (\<open>pastKeySets\<close>, \<open>pastKeyMaps\<close>, \<open>pastTagSets\<close>,
  \<open>pastArrays\<close>), and \<open>nextObject\<close> is the identity of the next new object.
\<close>

type_synonym obj = nat

record editor =
  headless :: bool
  parentEditor :: "eid option"
  rootElement :: "nat option"
  editorState :: addr
  pendingEditorState :: "addr option"
  compositionKey :: "key option"
  deferred :: "cb list"
  keyToDOMMap :: "(key \<times> nat) list"
  updates :: qaddr
  updating :: bool
  decoratorListeners :: "cb list"
  mutationListeners :: "(cb \<times> string list) list"
  textcontentListeners :: "cb list"
  updateListeners :: "cb list"
  commands :: "string \<Rightarrow> (nat \<Rightarrow> cb list option) option"
  nodes :: "string \<Rightarrow> registered_node option"
  decorators :: nat
  pendingDecorators :: "nat option"
  dirtyType :: dirty_type
  cloneNotNeeded :: "key list"
  dirtyLeaves :: "key list"
  dirtyElements :: "(key \<times> bool) list"
  normalizedNodes :: "key list"
  updateTags :: "string list"
  observer :: "nat option"
  onError :: cb
  editable :: bool
  blockCursorElement :: "nat option"
  dirtyLeavesObj :: obj
  dirtyElementsObj :: obj
  normalizedNodesObj :: obj
  updateTagsObj :: obj
  deferredObj :: obj
  pastKeySets :: "obj \<Rightarrow> key list"
  pastKeyMaps :: "obj \<Rightarrow> (key \<times> bool) list"
  pastTagSets :: "obj \<Rightarrow> string list"
  pastArrays :: "obj \<Rightarrow> cb list"
  nextObject :: obj

text \<open>
  \<^verbatim>\<open>editor._dirtyLeaves = new Set()\<close>, and the like for the other four fields: the object that
  was in the field keeps its content, under its identity, and the field has a new, empty
  object.
\<close>

definition newDirtyLeaves :: "editor \<Rightarrow> editor" where
  "newDirtyLeaves x =
     x\<lparr>pastKeySets := (pastKeySets x)(dirtyLeavesObj x := dirtyLeaves x),
       dirtyLeaves := [], dirtyLeavesObj := nextObject x, nextObject := nextObject x + 1\<rparr>"

definition newDirtyElements :: "editor \<Rightarrow> editor" where
  "newDirtyElements x =
     x\<lparr>pastKeyMaps := (pastKeyMaps x)(dirtyElementsObj x := dirtyElements x),
       dirtyElements := [], dirtyElementsObj := nextObject x, nextObject := nextObject x + 1\<rparr>"

definition newNormalizedNodes :: "editor \<Rightarrow> editor" where
  "newNormalizedNodes x =
     x\<lparr>pastKeySets := (pastKeySets x)(normalizedNodesObj x := normalizedNodes x),
       normalizedNodes := [], normalizedNodesObj := nextObject x, nextObject := nextObject x + 1\<rparr>"

definition newUpdateTags :: "editor \<Rightarrow> editor" where
  "newUpdateTags x =
     x\<lparr>pastTagSets := (pastTagSets x)(updateTagsObj x := updateTags x),
       updateTags := [], updateTagsObj := nextObject x, nextObject := nextObject x + 1\<rparr>"

definition newDeferred :: "editor \<Rightarrow> editor" where
  "newDeferred x =
     x\<lparr>pastArrays := (pastArrays x)(deferredObj x := deferred x),
       deferred := [], deferredObj := nextObject x, nextObject := nextObject x + 1\<rparr>"

text \<open>The content of an object that a function has bound: the object is in the editor's
  field still, or it has left it.\<close>

definition leavesOf :: "obj \<Rightarrow> editor \<Rightarrow> key list" where
  "leavesOf r x = (if dirtyLeavesObj x = r then dirtyLeaves x else pastKeySets x r)"

definition elementsOf :: "obj \<Rightarrow> editor \<Rightarrow> (key \<times> bool) list" where
  "elementsOf r x = (if dirtyElementsObj x = r then dirtyElements x else pastKeyMaps x r)"

definition normalizedOf :: "obj \<Rightarrow> editor \<Rightarrow> key list" where
  "normalizedOf r x = (if normalizedNodesObj x = r then normalizedNodes x else pastKeySets x r)"

definition tagsOf :: "obj \<Rightarrow> editor \<Rightarrow> string list" where
  "tagsOf r x = (if updateTagsObj x = r then updateTags x else pastTagSets x r)"

definition deferredOf :: "obj \<Rightarrow> editor \<Rightarrow> cb list" where
  "deferredOf r x = (if deferredObj x = r then deferred x else pastArrays x r)"

text \<open>\<^verbatim>\<open>updateTags.clear()\<close> on a bound set of tags.\<close>

definition clearTagsOf :: "obj \<Rightarrow> editor \<Rightarrow> editor" where
  "clearTagsOf r x =
     (if updateTagsObj x = r then x\<lparr>updateTags := []\<rparr>
      else x\<lparr>pastTagSets := (pastTagSets x)(r := [])\<rparr>)"

text \<open>\<^verbatim>\<open>editor._dirtyLeaves = previousDirtyLeaves\<close>: a bound object is put in the field again.\<close>

definition putDirtyLeaves :: "obj \<Rightarrow> editor \<Rightarrow> editor" where
  "putDirtyLeaves r x =
     (if dirtyLeavesObj x = r then x
      else x\<lparr>pastKeySets := (pastKeySets x)(dirtyLeavesObj x := dirtyLeaves x),
             dirtyLeaves := pastKeySets x r, dirtyLeavesObj := r\<rparr>)"

definition putDirtyElements :: "obj \<Rightarrow> editor \<Rightarrow> editor" where
  "putDirtyElements r x =
     (if dirtyElementsObj x = r then x
      else x\<lparr>pastKeyMaps := (pastKeyMaps x)(dirtyElementsObj x := dirtyElements x),
             dirtyElements := pastKeyMaps x r, dirtyElementsObj := r\<rparr>)"

text \<open>One visit of \<^verbatim>\<open>$applyTransforms\<close> by \<^verbatim>\<open>$applyAllTransforms\<close>: in the leaf pass, or
  in the element pass together with the editor's set of new dirty leaves at that moment.
  An element pass that begins is recorded with the new dirty leaves at its beginning and
  the order in which it will iterate.\<close>

datatype visit =
    LeafVisit key
  | ElementPassBegins "key list" "(key \<times> bool) list"
  | ElementVisit key "key list"

text \<open>
  The module's variables (\<open>activeEditorState\<close> \<dots> \<open>infiniteTransformCount\<close>), the editors,
  the store of \<^verbatim>\<open>EditorState\<close> objects with the next free address, the store of the arrays
  of queued updates with the next free address, the commits handed to
  \<^verbatim>\<open>scheduleMicroTask\<close>, and \<open>transformLog\<close>, which is not a variable of the source: it
  records the visits of the transform engine so that their order can be stated.
\<close>

record world =
  activeEditorState :: "addr option"
  activeEditor :: "eid option"
  isReadOnlyMode :: bool
  isAttemptingToRecoverFromReconcilerError :: bool
  infiniteTransformCount :: nat
  editors :: "eid \<Rightarrow> editor"
  states :: "addr \<Rightarrow> editor_state"
  nextAddr :: addr
  queues :: "qaddr \<Rightarrow> (cb \<times> update_options option) list"
  nextQueue :: qaddr
  microtasks :: "eid list"
  transformLog :: "visit list"

text \<open>The result of running code: it returns a value, it throws, or the model ran out of
  fuel (the source would still be running). Effects made before a throw stay.\<close>

datatype 'a outcome = Normal 'a world | Throws thrown world | OutOfFuel

definition andThen :: "'a outcome \<Rightarrow> ('a \<Rightarrow> world \<Rightarrow> 'b outcome) \<Rightarrow> 'b outcome" where
  "andThen r f = (case r of Normal x w \<Rightarrow> f x w | Throws t w \<Rightarrow> Throws t w | OutOfFuel \<Rightarrow> OutOfFuel)"

text \<open>\<^verbatim>\<open>try { r } finally { f }\<close> for a \<^verbatim>\<open>finally\<close> block that only assigns.\<close>

definition tryFinally :: "'a outcome \<Rightarrow> (world \<Rightarrow> world) \<Rightarrow> 'a outcome" where
  "tryFinally r f = (case r of Normal x w \<Rightarrow> Normal x (f w) | Throws t w \<Rightarrow> Throws t (f w) | OutOfFuel \<Rightarrow> OutOfFuel)"

definition ed :: "world \<Rightarrow> eid \<Rightarrow> editor" where
  "ed w e = editors w e"

definition setEd :: "eid \<Rightarrow> (editor \<Rightarrow> editor) \<Rightarrow> world \<Rightarrow> world" where
  "setEd e f w = w\<lparr>editors := (editors w)(e := f (editors w e))\<rparr>"

definition setState :: "addr \<Rightarrow> (editor_state \<Rightarrow> editor_state) \<Rightarrow> world \<Rightarrow> world" where
  "setState a f w = w\<lparr>states := (states w)(a := f (states w a))\<rparr>"

definition setQueue :: "qaddr \<Rightarrow> (cb \<times> update_options option) list \<Rightarrow> world \<Rightarrow> world" where
  "setQueue q items w = w\<lparr>queues := (queues w)(q := items)\<rparr>"

subsection \<open>JavaScript \<^verbatim>\<open>Set\<close> and \<^verbatim>\<open>Map\<close>, in insertion order\<close>

definition set_add :: "'a list \<Rightarrow> 'a \<Rightarrow> 'a list" where
  "set_add xs x = (if x \<in> set xs then xs else xs @ [x])"

fun map_set :: "('k \<times> 'v) list \<Rightarrow> 'k \<Rightarrow> 'v \<Rightarrow> ('k \<times> 'v) list" where
  "map_set [] k v = [(k, v)]"
| "map_set (p # ps) k v = (if fst p = k then (k, v) # ps else p # map_set ps k v)"

definition map_has :: "('k \<times> 'v) list \<Rightarrow> 'k \<Rightarrow> bool" where
  "map_has m k = (k \<in> set (map fst m))"

definition map_delete :: "('k \<times> 'v) list \<Rightarrow> 'k \<Rightarrow> ('k \<times> 'v) list" where
  "map_delete m k = filter (\<lambda>p. fst p \<noteq> k) m"

subsection \<open>Collaborators\<close>

text \<open>
  Everything the module calls and does not define: the callbacks registered by users and the
  functions imported from the other modules. A call that can run user code returns an
  \<open>outcome\<close>; a query is a function of the world.
\<close>

datatype serialized_node = SerializedNode string nat "serialized_node list option"

fun serializedType :: "serialized_node \<Rightarrow> string" where
  "serializedType (SerializedNode ty version children) = ty"

fun serializedChildren :: "serialized_node \<Rightarrow> serialized_node list option" where
  "serializedChildren (SerializedNode ty version children) = children"

datatype listener_payload =
    DecoratorPayload nat
  | TextContentPayload string
  | UpdatePayload "(key \<times> bool) list" "key list" addr "mutated_nodes option" "key list" addr "string list"
  | MutationPayload "(key \<times> string) list" "key list" addr "string list"

record env =
  runCallback :: "cb \<Rightarrow> world \<Rightarrow> unit outcome"
  runTransform :: "cb \<Rightarrow> lexical_node \<Rightarrow> world \<Rightarrow> unit outcome"
  runListener :: "cb \<Rightarrow> listener_payload \<Rightarrow> world \<Rightarrow> unit outcome"
  runCommandListener :: "cb \<Rightarrow> nat \<Rightarrow> eid \<Rightarrow> world \<Rightarrow> bool outcome"
  runOnError :: "cb \<Rightarrow> thrown \<Rightarrow> world \<Rightarrow> unit outcome"
  reconcileRoot :: "addr \<Rightarrow> addr \<Rightarrow> eid \<Rightarrow> dirty_type \<Rightarrow> (key \<times> bool) list \<Rightarrow> key list
     \<Rightarrow> world \<Rightarrow> mutated_nodes outcome"
  normalizeTextNode :: "lexical_node \<Rightarrow> world \<Rightarrow> unit outcome"
  isAttached :: "lexical_node \<Rightarrow> world \<Rightarrow> bool"
  getCompositionKey :: "world \<Rightarrow> key option"
  internalCreateSelection :: "eid \<Rightarrow> nat option \<Rightarrow> world \<Rightarrow> selection option outcome"
  applySelectionTransforms :: "addr \<Rightarrow> eid \<Rightarrow> world \<Rightarrow> unit outcome"
  garbageCollectDetachedNodes :: "addr \<Rightarrow> addr \<Rightarrow> key list \<Rightarrow> (key \<times> bool) list
     \<Rightarrow> world \<Rightarrow> unit outcome"
  garbageCollectDetachedDecorators :: "eid \<Rightarrow> addr \<Rightarrow> world \<Rightarrow> unit outcome"
  getDOMSelection :: "eid \<Rightarrow> world \<Rightarrow> nat option outcome"
  updateDOMSelection :: "selection option \<Rightarrow> selection option \<Rightarrow> eid \<Rightarrow> nat \<Rightarrow> string list
     \<Rightarrow> world \<Rightarrow> unit outcome"
  updateDOMBlockCursorElement :: "eid \<Rightarrow> selection option \<Rightarrow> world \<Rightarrow> unit outcome"
  removeDOMBlockCursorElement :: "nat \<Rightarrow> eid \<Rightarrow> world \<Rightarrow> unit outcome"
  initMutationObserver :: "eid \<Rightarrow> world \<Rightarrow> unit outcome"
  editorStateHasDirtySelection :: "addr \<Rightarrow> eid \<Rightarrow> world \<Rightarrow> bool"
  getEditorStateTextContent :: "addr \<Rightarrow> world \<Rightarrow> string"
  selectionIs :: "selection \<Rightarrow> selection \<Rightarrow> bool"
  cloneEditorState :: "editor_state \<Rightarrow> editor_state"
  createEmptyEditorState :: editor_state
  importJSON :: "string \<Rightarrow> serialized_node \<Rightarrow> world \<Rightarrow> lexical_node outcome"
  isElementNode :: "lexical_node \<Rightarrow> bool"
  appendChild :: "lexical_node \<Rightarrow> lexical_node \<Rightarrow> world \<Rightarrow> unit outcome"

text \<open>\<^verbatim>\<open>new EditorState\<close>: a fresh object in the store.\<close>

definition allocState :: "editor_state \<Rightarrow> world \<Rightarrow> addr \<times> world" where
  "allocState s w = (nextAddr w, w\<lparr>states := (states w)(nextAddr w := s), nextAddr := nextAddr w + 1\<rparr>)"

text \<open>\<^verbatim>\<open>try { r } catch (error) { h error }\<close>.\<close>

definition tryCatch :: "'a outcome \<Rightarrow> (thrown \<Rightarrow> world \<Rightarrow> 'a outcome) \<Rightarrow> 'a outcome" where
  "tryCatch r h = (case r of Normal x w \<Rightarrow> Normal x w | Throws t w \<Rightarrow> h t w | OutOfFuel \<Rightarrow> OutOfFuel)"

text \<open>\<^verbatim>\<open>if (error instanceof Error) { editor._onError(error); }\<close>\<close>

definition reportError :: "env \<Rightarrow> eid \<Rightarrow> thrown \<Rightarrow> world \<Rightarrow> unit outcome" where
  "reportError E e err w =
     (case err of
        ErrorObject msg \<Rightarrow> runOnError E (onError (ed w e)) err w
      | OtherValue v \<Rightarrow> Normal () w)"

text \<open>The engine's own record \<open>transformLog\<close> is out of a collaborator's reach.\<close>

definition keepLog :: "world \<Rightarrow> 'a outcome \<Rightarrow> 'a outcome" where
  "keepLog w r = tryFinally r (\<lambda>w'. w'\<lparr>transformLog := transformLog w\<rparr>)"

definition invariantError :: "string \<Rightarrow> world \<Rightarrow> 'a outcome" where
  "invariantError msg w = Throws (ErrorObject msg) w"

section \<open>The transform engine\<close>

definition INFINITE_TRANSFORMS :: string where
  "INFINITE_TRANSFORMS = ''One or more transforms are endlessly triggering additional transforms. May have encountered infinite recursion caused by transforms that have their preconditions too lose and/or conflict with each other.''"

text \<open>Lines 92 to 99.\<close>

definition errorOnInfiniteTransforms :: "world \<Rightarrow> unit outcome" where
  "errorOnInfiniteTransforms w =
     (if infiniteTransformCount w > 99
      then invariantError INFINITE_TRANSFORMS w
      else Normal () w)"

text \<open>Modelled from the spec: \<^verbatim>\<open>getRegisteredNodeOrThrow\<close> of \<^verbatim>\<open>LexicalUtils\<close> is not among
  the sources; it looks the type up in the editor's registry and fails fatally when the type
  is unregistered.\<close>

definition getRegisteredNodeOrThrow :: "eid \<Rightarrow> string \<Rightarrow> world \<Rightarrow> registered_node outcome" where
  "getRegisteredNodeOrThrow e ty w =
     (case nodes (ed w e) ty of
        None \<Rightarrow> invariantError ''Node type is not registered'' w
      | Some r \<Rightarrow> Normal r w)"

type_synonym transforms_cache = "(string \<times> cb list) list"

text \<open>The loop of \<^verbatim>\<open>$applyTransforms\<close>: it stops after a transform that detaches the node.\<close>

fun runTransforms :: "env \<Rightarrow> cb list \<Rightarrow> lexical_node \<Rightarrow> world \<Rightarrow> unit outcome" where
  "runTransforms E [] node w = Normal () w"
| "runTransforms E (t # ts) node w =
     andThen (keepLog w (runTransform E t node w))
       (\<lambda>_ w'. if \<not> isAttached E node w' then Normal () w' else runTransforms E ts node w')"

definition applyTransforms ::
  "env \<Rightarrow> eid \<Rightarrow> lexical_node \<Rightarrow> transforms_cache \<Rightarrow> world \<Rightarrow> transforms_cache outcome" where
  "applyTransforms E e node cache w =
     andThen (getRegisteredNodeOrThrow e (ntype node) w)
       (\<lambda>registeredNode w1.
          let cache' = (case map_of cache (ntype node) of
                          None \<Rightarrow> map_set cache (ntype node) (transforms registeredNode)
                        | Some arr \<Rightarrow> cache);
              transformsArr = (case map_of cache (ntype node) of
                          None \<Rightarrow> transforms registeredNode
                        | Some arr \<Rightarrow> arr)
          in andThen (runTransforms E transformsArr node w1) (\<lambda>_ w2. Normal cache' w2))"

definition isNodeValidForTransform :: "env \<Rightarrow> lexical_node \<Rightarrow> key option \<Rightarrow> world \<Rightarrow> bool" where
  "isNodeValidForTransform E node ck w = (Some (nkey node) \<noteq> ck \<and> isAttached E node w)"

definition normalizeIfSimpleText :: "env \<Rightarrow> lexical_node option \<Rightarrow> world \<Rightarrow> unit outcome" where
  "normalizeIfSimpleText E nodeOpt w =
     (case nodeOpt of
        None \<Rightarrow> Normal () w
      | Some node \<Rightarrow>
          if isTextNode node \<and> isAttached E node w \<and> isSimpleText node \<and> \<not> isUnmergeable node
          then keepLog w (normalizeTextNode E node w)
          else Normal () w)"

fun normalizeAllDirtyTextNodesLoop :: "env \<Rightarrow> addr \<Rightarrow> key list \<Rightarrow> world \<Rightarrow> unit outcome" where
  "normalizeAllDirtyTextNodesLoop E st [] w = Normal () w"
| "normalizeAllDirtyTextNodesLoop E st (nodeKey # ks) w =
     andThen (normalizeIfSimpleText E (nodeMap (states w st) nodeKey) w)
       (\<lambda>_ w'. normalizeAllDirtyTextNodesLoop E st ks w')"

definition normalizeAllDirtyTextNodes :: "env \<Rightarrow> addr \<Rightarrow> eid \<Rightarrow> world \<Rightarrow> unit outcome" where
  "normalizeAllDirtyTextNodes E st e w =
     normalizeAllDirtyTextNodesLoop E st (dirtyLeaves (ed w e)) w"

text \<open>
  \<^verbatim>\<open>$applyAllTransforms\<close>. The source holds its sets by reference; the model holds them by
  value, as follows. \<open>accL\<close> and \<open>accE\<close> are the locals \<^verbatim>\<open>dirtyLeaves\<close> and \<^verbatim>\<open>dirtyElements\<close>
  (the editor's original objects, which collect every processed key). At each head of the
  loop \<^verbatim>\<open>untransformedDirtyLeaves\<close> and \<^verbatim>\<open>untransformedDirtyElements\<close> are the objects in the
  editor's fields, so the model reads the fields. Until the first element pass the local
  \<^verbatim>\<open>dirtyElements\<close> is that same object: \<open>accE = None\<close> says so. Collaborators write to the
  objects in the editor's fields and do not replace them. The identities of the objects in
  the two fields are left as they are: the engine puts the two objects it has found there in
  the fields again before it returns (lines 346 and 347).
\<close>

fun leafPass ::
  "env \<Rightarrow> eid \<Rightarrow> addr \<Rightarrow> key option \<Rightarrow> key list \<Rightarrow> transforms_cache \<Rightarrow> key list \<Rightarrow> world
     \<Rightarrow> (transforms_cache \<times> key list) outcome" where
  "leafPass E e st ck [] cache accL w = Normal (cache, accL) w"
| "leafPass E e st ck (nodeKey # ks) cache accL w =
     andThen (normalizeIfSimpleText E (nodeMap (states w st) nodeKey) w)
       (\<lambda>_ w1.
          andThen
            (case nodeMap (states w st) nodeKey of
               None \<Rightarrow> Normal cache w1
             | Some node \<Rightarrow>
                 if isNodeValidForTransform E node ck w1
                 then applyTransforms E e node cache
                        (w1\<lparr>transformLog := transformLog w1 @ [LeafVisit nodeKey]\<rparr>)
                 else Normal cache w1)
            (\<lambda>cache' w2. leafPass E e st ck ks cache' (set_add accL nodeKey) w2))"

fun elementPass ::
  "env \<Rightarrow> eid \<Rightarrow> addr \<Rightarrow> key option \<Rightarrow> (key \<times> bool) list \<Rightarrow> transforms_cache
     \<Rightarrow> (key \<times> bool) list \<Rightarrow> world \<Rightarrow> (transforms_cache \<times> (key \<times> bool) list) outcome" where
  "elementPass E e st ck [] cache accE w = Normal (cache, accE) w"
| "elementPass E e st ck (currentUntransformedDirtyElement # rest) cache accE w =
     (let nodeKey = fst currentUntransformedDirtyElement;
          intentionallyMarkedAsDirty = snd currentUntransformedDirtyElement;
          accE' = map_set accE nodeKey intentionallyMarkedAsDirty
      in if \<not> intentionallyMarkedAsDirty then elementPass E e st ck rest cache accE' w
         else andThen
            (case nodeMap (states w st) nodeKey of
               None \<Rightarrow> Normal cache w
             | Some node \<Rightarrow>
                 if isNodeValidForTransform E node ck w
                 then applyTransforms E e node cache
                        (w\<lparr>transformLog := transformLog w @ [ElementVisit nodeKey (dirtyLeaves (ed w e))]\<rparr>)
                 else Normal cache w)
            (\<lambda>cache' w'. elementPass E e st ck rest cache' accE' w'))"

text \<open>Lines 272 to 306: the leaf pass, and whether it has to be repeated.\<close>

definition leafPhase ::
  "env \<Rightarrow> eid \<Rightarrow> addr \<Rightarrow> key option \<Rightarrow> transforms_cache \<Rightarrow> key list \<Rightarrow> world
     \<Rightarrow> (transforms_cache \<times> key list \<times> bool) outcome" where
  "leafPhase E e st ck cache accL w =
     (let untransformedDirtyLeaves = dirtyLeaves (ed w e)
      in if length untransformedDirtyLeaves > 0
         then andThen
            (leafPass E e st ck untransformedDirtyLeaves cache accL
               (setEd e (\<lambda>x. x\<lparr>dirtyLeaves := []\<rparr>) w))
            (\<lambda>r w1.
               if length (dirtyLeaves (ed w1 e)) > 0
               then Normal (fst r, snd r, True)
                      (w1\<lparr>infiniteTransformCount := infiniteTransformCount w1 + 1\<rparr>)
               else Normal (fst r, snd r, False) w1)
         else Normal (cache, accL, False) w)"

text \<open>The order in which the element pass iterates: the root's entry, if there is one, is
  deleted and set again to \<open>true\<close>, which moves it to the end.\<close>

definition rootLast :: "(key \<times> bool) list \<Rightarrow> (key \<times> bool) list" where
  "rootLast m = (if map_has m ''root'' then map_set (map_delete m ''root'') ''root'' True else m)"

text \<open>Lines 308 to 343: the element pass.\<close>

definition elementPhase ::
  "env \<Rightarrow> eid \<Rightarrow> addr \<Rightarrow> key option \<Rightarrow> transforms_cache \<Rightarrow> (key \<times> bool) list option \<Rightarrow> world
     \<Rightarrow> (transforms_cache \<times> (key \<times> bool) list) outcome" where
  "elementPhase E e st ck cache accE w =
     (let untransformedDirtyElements = rootLast (dirtyElements (ed w e));
          w1 = setEd e (\<lambda>x. x\<lparr>dirtyLeaves := [], dirtyElements := []\<rparr>)
                 (w\<lparr>transformLog := transformLog w @
                     [ElementPassBegins (dirtyLeaves (ed w e)) untransformedDirtyElements]\<rparr>)
      in andThen
           (elementPass E e st ck untransformedDirtyElements cache
              (case accE of None \<Rightarrow> untransformedDirtyElements | Some a \<Rightarrow> a) w1)
           (\<lambda>r w2. Normal r (w2\<lparr>infiniteTransformCount := infiniteTransformCount w2 + 1\<rparr>)))"

fun applyAllTransformsLoop ::
  "env \<Rightarrow> nat \<Rightarrow> eid \<Rightarrow> addr \<Rightarrow> key option \<Rightarrow> transforms_cache \<Rightarrow> key list
     \<Rightarrow> (key \<times> bool) list option \<Rightarrow> world \<Rightarrow> (key list \<times> (key \<times> bool) list option) outcome" where
  "applyAllTransformsLoop E 0 e st ck cache accL accE w = OutOfFuel"
| "applyAllTransformsLoop E (Suc n) e st ck cache accL accE w =
     (if length (dirtyLeaves (ed w e)) > 0 \<or> length (dirtyElements (ed w e)) > 0
      then andThen (leafPhase E e st ck cache accL w)
        (\<lambda>r w1.
           if snd (snd r) then applyAllTransformsLoop E n e st ck (fst r) (fst (snd r)) accE w1
           else andThen (elementPhase E e st ck (fst r) accE w1)
             (\<lambda>r' w2. applyAllTransformsLoop E n e st ck (fst r') (fst (snd r)) (Some (snd r')) w2))
      else Normal (accL, accE) w)"

definition applyAllTransforms :: "env \<Rightarrow> nat \<Rightarrow> addr \<Rightarrow> eid \<Rightarrow> world \<Rightarrow> unit outcome" where
  "applyAllTransforms E n editorState' e w =
     andThen
       (applyAllTransformsLoop E n e editorState' (getCompositionKey E w) []
          (dirtyLeaves (ed w e)) None w)
       (\<lambda>r w'. Normal ()
          (setEd e (\<lambda>x. x\<lparr>dirtyLeaves := fst r,
                             dirtyElements := (case snd r of None \<Rightarrow> dirtyElements x | Some a \<Rightarrow> a)\<rparr>) w'))"

section \<open>Scopes of the ambient context\<close>

definition restoreContext :: "world \<Rightarrow> world \<Rightarrow> world" where
  "restoreContext previous w =
     w\<lparr>activeEditorState := activeEditorState previous,
       isReadOnlyMode := isReadOnlyMode previous,
       activeEditor := activeEditor previous\<rparr>"

fun parseSerializedNodeImpl :: "env \<Rightarrow> eid \<Rightarrow> serialized_node \<Rightarrow> world \<Rightarrow> lexical_node outcome"
  and parseSerializedChildren ::
    "env \<Rightarrow> eid \<Rightarrow> lexical_node \<Rightarrow> serialized_node list \<Rightarrow> world \<Rightarrow> unit outcome" where
  "parseSerializedNodeImpl E e (SerializedNode ty version children) w =
     (case nodes (ed w e) ty of
        None \<Rightarrow> invariantError ''parseEditorState: type not found'' w
      | Some registeredNode \<Rightarrow>
          if ty \<noteq> klassType registeredNode
          then invariantError ''LexicalNode: Node does not implement .importJSON().'' w
          else andThen (importJSON E (klass registeredNode) (SerializedNode ty version children) w)
            (\<lambda>node w1.
               case children of
                 None \<Rightarrow> Normal node w1
               | Some cs \<Rightarrow>
                   if isElementNode E node
                   then andThen (parseSerializedChildren E e node cs w1) (\<lambda>_ w2. Normal node w2)
                   else Normal node w1))"
| "parseSerializedChildren E e node [] w = Normal () w"
| "parseSerializedChildren E e node (c # cs) w =
     andThen (parseSerializedNodeImpl E e c w)
       (\<lambda>childNode w1.
          andThen (appendChild E node childNode w1)
            (\<lambda>_ w2. parseSerializedChildren E e node cs w2))"

text \<open>\<^verbatim>\<open>parseEditorState\<close>. (\<^verbatim>\<open>setPendingNodeToClone\<close> writes a variable of another module and
  the development-only guards of the node map are left out.)\<close>

definition parseEditorState ::
  "env \<Rightarrow> serialized_node \<Rightarrow> eid \<Rightarrow> cb option \<Rightarrow> world \<Rightarrow> addr outcome" where
  "parseEditorState E serializedRoot e updateFn w =
     (let editorState' = fst (allocState (createEmptyEditorState E) w);
          w1 = snd (allocState (createEmptyEditorState E) w);
          previous = ed w1 e;
          w2 = setEd e (\<lambda>x. (newDirtyLeaves (newDirtyElements x))
                                 \<lparr>cloneNotNeeded := [], dirtyType := NO_DIRTY_NODES\<rparr>) w1;
          w3 = w2\<lparr>activeEditorState := Some editorState', isReadOnlyMode := False,
                   activeEditor := Some e\<rparr>
      in andThen
        (tryFinally
          (tryCatch
            (andThen (parseSerializedNodeImpl E e serializedRoot w3)
              (\<lambda>_ w4.
                 andThen (case updateFn of None \<Rightarrow> Normal () w4 | Some f \<Rightarrow> runCallback E f w4)
                   (\<lambda>_ w5. Normal () (setState editorState' (\<lambda>s. s\<lparr>readOnly := True\<rparr>) w5))))
            (\<lambda>error w4. reportError E e error w4))
          (\<lambda>w6. restoreContext w
             (setEd e (\<lambda>x. (putDirtyLeaves (dirtyLeavesObj previous)
                                  (putDirtyElements (dirtyElementsObj previous) x))
                                 \<lparr>cloneNotNeeded := cloneNotNeeded previous,
                                  dirtyType := dirtyType previous\<rparr>) w6)))
        (\<lambda>_ w7. Normal editorState' w7))"

definition readEditorState :: "eid option \<Rightarrow> addr \<Rightarrow> (world \<Rightarrow> 'a outcome) \<Rightarrow> world \<Rightarrow> 'a outcome" where
  "readEditorState editor' editorState' callbackFn w =
     tryFinally
       (callbackFn (w\<lparr>activeEditorState := Some editorState',
                        isReadOnlyMode := True,
                        activeEditor := editor'\<rparr>))
       (restoreContext w)"

section \<open>Listeners and queued callbacks\<close>

text \<open>What \<^verbatim>\<open>$beginUpdate\<close> is given to run: a function of the caller, or the closure that
  \<^verbatim>\<open>triggerCommandListeners\<close> builds over its copy of a listener set. The closure's variable
  \<^verbatim>\<open>returnVal\<close> is the value an update function returns in the model.\<close>

datatype updfn = UserFn cb | CommandFn "cb list" nat eid

fun runCommandListeners :: "env \<Rightarrow> cb list \<Rightarrow> nat \<Rightarrow> eid \<Rightarrow> world \<Rightarrow> bool outcome" where
  "runCommandListeners E [] payload editor' w = Normal False w"
| "runCommandListeners E (l # ls) payload editor' w =
     andThen (runCommandListener E l payload editor' w)
       (\<lambda>handled w'. if handled then Normal True w'
                     else runCommandListeners E ls payload editor' w')"

fun runUpdateFn :: "env \<Rightarrow> updfn \<Rightarrow> world \<Rightarrow> bool outcome" where
  "runUpdateFn E (UserFn f) w = andThen (runCallback E f w) (\<lambda>_ w'. Normal False w')"
| "runUpdateFn E (CommandFn listeners payload editor') w =
     runCommandListeners E listeners payload editor' w"

fun addTags :: "eid \<Rightarrow> tag_option \<Rightarrow> world \<Rightarrow> world" where
  "addTags e NoTag w = w"
| "addTags e (OneTag t) w =
     (if t = [] then w else setEd e (\<lambda>x. x\<lparr>updateTags := set_add (updateTags x) t\<rparr>) w)"
| "addTags e (ManyTags ts) w =
     setEd e (\<lambda>x. x\<lparr>updateTags := foldl set_add (updateTags x) ts\<rparr>) w"

fun runListeners :: "env \<Rightarrow> cb list \<Rightarrow> listener_payload \<Rightarrow> world \<Rightarrow> unit outcome" where
  "runListeners E [] payload w = Normal () w"
| "runListeners E (l # ls) payload w =
     andThen (runListener E l payload w) (\<lambda>_ w'. runListeners E ls payload w')"

definition triggerListeners ::
  "env \<Rightarrow> (editor \<Rightarrow> cb list) \<Rightarrow> eid \<Rightarrow> bool \<Rightarrow> listener_payload \<Rightarrow> world \<Rightarrow> unit outcome" where
  "triggerListeners E listenersOfType e isCurrentlyEnqueuingUpdates payload w =
     tryFinally
       (runListeners E (listenersOfType (ed w e)) payload
          (setEd e (\<lambda>x. x\<lparr>updating := isCurrentlyEnqueuingUpdates\<rparr>) w))
       (setEd e (\<lambda>x. x\<lparr>updating := updating (ed w e)\<rparr>))"

fun runCallbacks :: "env \<Rightarrow> cb list \<Rightarrow> world \<Rightarrow> unit outcome" where
  "runCallbacks E [] w = Normal () w"
| "runCallbacks E (f # fs) w = andThen (runCallback E f w) (\<lambda>_ w'. runCallbacks E fs w')"

text \<open>\<^verbatim>\<open>triggerDeferredUpdateCallbacks\<close>, given the array \<open>deferred'\<close> that the commit has bound.
  The editor's field has a new array from the first line on, so nothing is pushed on the
  bound array while its callbacks run.\<close>

definition triggerDeferredUpdateCallbacks :: "env \<Rightarrow> eid \<Rightarrow> obj \<Rightarrow> world \<Rightarrow> unit outcome" where
  "triggerDeferredUpdateCallbacks E e deferred' w =
     (let w1 = setEd e newDeferred w
      in if length (deferredOf deferred' (ed w1 e)) \<noteq> 0
         then tryFinally
                (runCallbacks E (deferredOf deferred' (ed w1 e))
                   (setEd e (\<lambda>x. x\<lparr>updating := True\<rparr>) w1))
                (setEd e (\<lambda>x. x\<lparr>updating := updating (ed w1 e)\<rparr>))
         else Normal () w1)"

fun mutationListenerKlasses ::
  "env \<Rightarrow> cb \<Rightarrow> string list \<Rightarrow> mutated_nodes \<Rightarrow> key list \<Rightarrow> addr \<Rightarrow> string list \<Rightarrow> world
     \<Rightarrow> unit outcome" where
  "mutationListenerKlasses E listener [] mutatedNodes dirtyLeaves' prevEditorState tags w = Normal () w"
| "mutationListenerKlasses E listener (k # ks) mutatedNodes dirtyLeaves' prevEditorState tags w =
     andThen
       (case map_of mutatedNodes k of
          None \<Rightarrow> Normal () w
        | Some mutatedNodesByType \<Rightarrow>
            runListener E listener
              (MutationPayload mutatedNodesByType dirtyLeaves' prevEditorState tags) w)
       (\<lambda>_ w'. mutationListenerKlasses E listener ks mutatedNodes dirtyLeaves' prevEditorState tags w')"

fun mutationListenersLoop ::
  "env \<Rightarrow> (cb \<times> string list) list \<Rightarrow> mutated_nodes \<Rightarrow> key list \<Rightarrow> addr \<Rightarrow> string list \<Rightarrow> world
     \<Rightarrow> unit outcome" where
  "mutationListenersLoop E [] mutatedNodes dirtyLeaves' prevEditorState tags w = Normal () w"
| "mutationListenersLoop E (l # ls) mutatedNodes dirtyLeaves' prevEditorState tags w =
     andThen
       (mutationListenerKlasses E (fst l) (snd l) mutatedNodes dirtyLeaves' prevEditorState tags w)
       (\<lambda>_ w'. mutationListenersLoop E ls mutatedNodes dirtyLeaves' prevEditorState tags w')"

definition triggerMutationListeners ::
  "env \<Rightarrow> eid \<Rightarrow> mutated_nodes \<Rightarrow> string list \<Rightarrow> key list \<Rightarrow> addr \<Rightarrow> world \<Rightarrow> unit outcome" where
  "triggerMutationListeners E e mutatedNodes tags dirtyLeaves' prevEditorState w =
     mutationListenersLoop E (mutationListeners (ed w e)) mutatedNodes dirtyLeaves' prevEditorState tags w"

definition triggerTextContentListeners :: "env \<Rightarrow> eid \<Rightarrow> addr \<Rightarrow> addr \<Rightarrow> world \<Rightarrow> unit outcome" where
  "triggerTextContentListeners E e currentEditorState pendingEditorState' w =
     (let currentTextContent = getEditorStateTextContent E currentEditorState w;
          latestTextContent = getEditorStateTextContent E pendingEditorState' w
      in if currentTextContent \<noteq> latestTextContent
         then triggerListeners E textcontentListeners e True (TextContentPayload latestTextContent) w
         else Normal () w)"

text \<open>\<^verbatim>\<open>resetEditor\<close> (\<^verbatim>\<open>LexicalEditor.ts\<close>). The editor is given a new, empty array of
  queued updates and new sets of dirty leaves, normalized nodes and tags; the map of dirty
  elements and the set \<^verbatim>\<open>_cloneNotNeeded\<close> are cleared, the array \<^verbatim>\<open>_deferred\<close> is left. The text content of the root elements belongs to the DOM and is not part
  of the world.\<close>

definition resetEditor :: "env \<Rightarrow> eid \<Rightarrow> nat option \<Rightarrow> nat option \<Rightarrow> addr \<Rightarrow> world \<Rightarrow> world" where
  "resetEditor E e prevRootElement nextRootElement pendingEditorState' w =
     (let fresh = fst (allocState (createEmptyEditorState E) w);
          w1 = snd (allocState (createEmptyEditorState E) w)
      in setEd e (\<lambda>x. (newUpdateTags (newNormalizedNodes (newDirtyLeaves x)))\<lparr>
            keyToDOMMap := (case nextRootElement of None \<Rightarrow> [] | Some r \<Rightarrow> [(''root'', r)]),
            updates := nextQueue w,
            editorState := fresh,
            pendingEditorState := Some pendingEditorState',
            compositionKey := None,
            dirtyType := NO_DIRTY_NODES,
            cloneNotNeeded := [],
            dirtyElements := [],
            blockCursorElement := None,
            observer := None\<rparr>)
           (w1\<lparr>queues := (queues w1)(nextQueue w := []), nextQueue := nextQueue w + 1\<rparr>))"

section \<open>The commit pipeline\<close>

text \<open>
  The functions of the module call each other without bound (a commit starts the next queued
  update, which commits, \<dots>), so each is first written over the functions it calls, given as
  arguments; section \<open>The module\<close> ties them together with fuel.
\<close>

type_synonym beginUpdate_fn = "eid \<Rightarrow> updfn \<Rightarrow> update_options option \<Rightarrow> world \<Rightarrow> bool outcome"
type_synonym commit_fn = "eid \<Rightarrow> addr option \<Rightarrow> world \<Rightarrow> unit outcome"
type_synonym dispatch_fn = "eid \<Rightarrow> string \<Rightarrow> nat \<Rightarrow> world \<Rightarrow> bool outcome"
type_synonym nested_fn = "eid \<Rightarrow> bool \<Rightarrow> world \<Rightarrow> bool outcome"

text \<open>The constants that \<^verbatim>\<open>$commitPendingUpdates\<close> binds before it renders (lines 509 to 530);
  \<open>cPrevious\<close> is the world at entry, for the three \<^verbatim>\<open>previousActive\<close>\<dots> constants.\<close>

record commit_frame =
  cPending :: addr
  cCurrent :: addr
  cRecovery :: "addr option"
  cCurrentSelection :: "selection option"
  cPendingSelection :: "selection option"
  cNeedsUpdate :: bool
  cShouldSkipDOM :: bool
  cRootElement :: "nat option"
  cPreviouslyUpdating :: bool
  cPrevious :: world

text \<open>Lines 535 to 539: the rendering section installs its context.\<close>

definition commitInstall :: "eid \<Rightarrow> addr \<Rightarrow> world \<Rightarrow> world" where
  "commitInstall e pendingEditorState' w =
     setEd e (\<lambda>x. x\<lparr>updating := True\<rparr>)
       (w\<lparr>activeEditor := Some e, activeEditorState := Some pendingEditorState',
          isReadOnlyMode := False\<rparr>)"

text \<open>Lines 574 to 580, the \<^verbatim>\<open>finally\<close> block of the rendering section.\<close>

definition commitRestore :: "eid \<Rightarrow> commit_frame \<Rightarrow> world \<Rightarrow> world" where
  "commitRestore e F w =
     restoreContext (cPrevious F) (setEd e (\<lambda>x. x\<lparr>updating := cPreviouslyUpdating F\<rparr>) w)"

text \<open>Lines 564 and 565: a full reconcile is forced and the recovery is marked as running.\<close>

definition markRecovery :: "eid \<Rightarrow> world \<Rightarrow> world" where
  "markRecovery e w =
     (setEd e (\<lambda>x. x\<lparr>dirtyType := FULL_RECONCILE\<rparr>) w)
       \<lparr>isAttemptingToRecoverFromReconcilerError := True\<rparr>"

text \<open>Lines 554 to 573, the \<^verbatim>\<open>catch\<close> block of the rendering section.\<close>

definition commitCatch ::
  "env \<Rightarrow> commit_fn \<Rightarrow> eid \<Rightarrow> commit_frame \<Rightarrow> thrown \<Rightarrow> world \<Rightarrow> mutated_nodes option outcome" where
  "commitCatch E commit e F error w =
     andThen (reportError E e error w)
       (\<lambda>_ w3.
          if \<not> isAttemptingToRecoverFromReconcilerError w3
          then andThen
            (initMutationObserver E e (resetEditor E e None (cRootElement F) (cPending F) w3))
            (\<lambda>_ w4.
               andThen (commit e (Some (cCurrent F)) (markRecovery e w4))
                 (\<lambda>_ w5. Normal None
                    (w5\<lparr>isAttemptingToRecoverFromReconcilerError := False\<rparr>)))
          else Throws error w3)"

text \<open>Lines 534 to 581, the rendering section. It yields the mutated nodes, or nothing when
  the \<^verbatim>\<open>catch\<close> block has returned from the function.\<close>

definition commitReconcile ::
  "env \<Rightarrow> commit_fn \<Rightarrow> eid \<Rightarrow> commit_frame \<Rightarrow> world \<Rightarrow> mutated_nodes option outcome" where
  "commitReconcile E commit e F w =
     tryFinally
       (tryCatch
          (andThen
             (reconcileRoot E (cCurrent F) (cPending F) e
                (dirtyType (ed (commitInstall e (cPending F) w) e))
                (dirtyElements (ed (commitInstall e (cPending F) w) e))
                (dirtyLeaves (ed (commitInstall e (cPending F) w) e))
                (commitInstall e (cPending F) w))
             (\<lambda>m w2. Normal (Some m) w2))
          (commitCatch E commit e F))
       (commitRestore e F)"

definition SKIP_DOM_SELECTION_TAG :: string where
  "SKIP_DOM_SELECTION_TAG = ''skip-dom-selection''"

definition SELECTION_CHANGE_COMMAND :: string where
  "SELECTION_CHANGE_COMMAND = ''SELECTION_CHANGE_COMMAND''"

text \<open>Lines 616 to 659: the DOM selection is brought up to date.\<close>

definition commitDOMSelection ::
  "env \<Rightarrow> eid \<Rightarrow> commit_frame \<Rightarrow> string list \<Rightarrow> world \<Rightarrow> unit outcome" where
  "commitDOMSelection E e F tags w =
     andThen (if cShouldSkipDOM F then Normal None w else getDOMSelection E e w)
       (\<lambda>domSelection w1.
          case domSelection of
            None \<Rightarrow> Normal () w1
          | Some ds \<Rightarrow>
              if editable (ed w1 e)
                 \<and> (cNeedsUpdate F \<or> cPendingSelection F = None
                      \<or> selectionDirty (the (cPendingSelection F)))
                 \<and> cRootElement F \<noteq> None
                 \<and> SKIP_DOM_SELECTION_TAG \<notin> set tags
              then tryFinally
                (andThen
                   (case blockCursorElement (ed w1 e) of
                      None \<Rightarrow> Normal () (w1\<lparr>activeEditor := Some e,
                                              activeEditorState := Some (cPending F)\<rparr>)
                    | Some b \<Rightarrow> removeDOMBlockCursorElement E b e
                                 (w1\<lparr>activeEditor := Some e,
                                     activeEditorState := Some (cPending F)\<rparr>))
                   (\<lambda>_ w2.
                      andThen
                        (updateDOMSelection E (cCurrentSelection F) (cPendingSelection F) e ds tags w2)
                        (\<lambda>_ w3. updateDOMBlockCursorElement E e (cPendingSelection F) w3)))
                (\<lambda>w4. w4\<lparr>activeEditor := activeEditor (cPrevious F),
                          activeEditorState := activeEditorState (cPrevious F)\<rparr>)
              else Normal () w1)"

definition triggerEnqueuedUpdates :: "beginUpdate_fn \<Rightarrow> eid \<Rightarrow> world \<Rightarrow> unit outcome" where
  "triggerEnqueuedUpdates beginUpdate' e w =
     (case queues w (updates (ed w e)) of
        [] \<Rightarrow> Normal () w
      | queuedUpdate # rest \<Rightarrow>
          andThen
            (beginUpdate' e (UserFn (fst queuedUpdate)) (snd queuedUpdate)
               (setQueue (updates (ed w e)) rest w))
            (\<lambda>_ w'. Normal () w'))"

text \<open>
  Lines 583 to 707, after the rendering section. The constants bound at lines 595 to 599
  are the objects that are in the editor's fields in the world \<open>w1\<close> of those lines; where the
  source passes such a constant on, the model passes the content that the object has in the
  world \<open>w'\<close> of the call, whether it is in the field still or has been replaced there.
\<close>

definition boundLeaves :: "eid \<Rightarrow> world \<Rightarrow> world \<Rightarrow> key list" where
  "boundLeaves e w1 w' = leavesOf (dirtyLeavesObj (ed w1 e)) (ed w' e)"

definition boundElements :: "eid \<Rightarrow> world \<Rightarrow> world \<Rightarrow> (key \<times> bool) list" where
  "boundElements e w1 w' = elementsOf (dirtyElementsObj (ed w1 e)) (ed w' e)"

definition boundNormalized :: "eid \<Rightarrow> world \<Rightarrow> world \<Rightarrow> key list" where
  "boundNormalized e w1 w' = normalizedOf (normalizedNodesObj (ed w1 e)) (ed w' e)"

definition boundTags :: "eid \<Rightarrow> world \<Rightarrow> world \<Rightarrow> string list" where
  "boundTags e w1 w' = tagsOf (updateTagsObj (ed w1 e)) (ed w' e)"

text \<open>Lines 583 to 593: the published state is made read-only.\<close>

definition commitFreeze :: "addr \<Rightarrow> world \<Rightarrow> world" where
  "commitFreeze pendingEditorState' w =
     (if \<not> readOnly (states w pendingEditorState')
      then setState pendingEditorState' (\<lambda>s. s\<lparr>readOnly := True\<rparr>) w else w)"

text \<open>Lines 602 to 609.\<close>

definition commitResetDirty :: "eid \<Rightarrow> commit_frame \<Rightarrow> world \<Rightarrow> world" where
  "commitResetDirty e F w =
     (if cNeedsUpdate F
      then setEd e (\<lambda>x. newUpdateTags (newNormalizedNodes (newDirtyElements (newDirtyLeaves
                             (x\<lparr>dirtyType := NO_DIRTY_NODES, cloneNotNeeded := []\<rparr>))))) w
      else w)"

text \<open>Lines 595 to 696, from the world \<open>w1\<close> in which the published state is read-only.\<close>

definition commitBeforeUpdateListeners ::
  "env \<Rightarrow> dispatch_fn \<Rightarrow> eid \<Rightarrow> commit_frame \<Rightarrow> mutated_nodes option \<Rightarrow> world \<Rightarrow> unit outcome" where
  "commitBeforeUpdateListeners E dispatch e F mutatedNodes w1 =
      andThen (garbageCollectDetachedDecorators E e (cPending F) (commitResetDirty e F w1)) (\<lambda>_ w3.
      andThen (commitDOMSelection E e F (boundTags e w1 w3) w3) (\<lambda>_ w4.
      andThen
        (case mutatedNodes of
           None \<Rightarrow> Normal () w4
         | Some m \<Rightarrow> triggerMutationListeners E e m (boundTags e w1 w4)
                       (boundLeaves e w1 w4) (cCurrent F) w4) (\<lambda>_ w5.
      andThen
        (if \<not> isRangeSelection (cPendingSelection F) \<and> cPendingSelection F \<noteq> None
            \<and> (cCurrentSelection F = None
                 \<or> \<not> selectionIs E (the (cCurrentSelection F)) (the (cPendingSelection F)))
         then andThen (dispatch e SELECTION_CHANGE_COMMAND 0 w5) (\<lambda>_ w'. Normal () w')
         else Normal () w5) (\<lambda>_ w6.
      andThen
        (case pendingDecorators (ed w6 e) of
           None \<Rightarrow> Normal () w6
         | Some pd \<Rightarrow>
             triggerListeners E decoratorListeners e True (DecoratorPayload pd)
               (setEd e (\<lambda>x. x\<lparr>decorators := pd, pendingDecorators := None\<rparr>) w6)) (\<lambda>_ w7.
      triggerTextContentListeners E e
        (case cRecovery F of None \<Rightarrow> cCurrent F | Some r \<Rightarrow> r) (cPending F) w7)))))"

text \<open>The payload of the update listeners, lines 697 to 705.\<close>

definition updatePayload ::
  "eid \<Rightarrow> commit_frame \<Rightarrow> mutated_nodes option \<Rightarrow> world \<Rightarrow> world \<Rightarrow> listener_payload" where
  "updatePayload e F mutatedNodes w1 w8 =
     UpdatePayload (boundElements e w1 w8) (boundLeaves e w1 w8)
       (cPending F) mutatedNodes (boundNormalized e w1 w8)
       (case cRecovery F of None \<Rightarrow> cCurrent F | Some r \<Rightarrow> r)
       (boundTags e w1 w8)"

text \<open>Lines 595 to 707.\<close>

definition commitNotify ::
  "env \<Rightarrow> dispatch_fn \<Rightarrow> beginUpdate_fn \<Rightarrow> eid \<Rightarrow> commit_frame \<Rightarrow> mutated_nodes option \<Rightarrow> world
     \<Rightarrow> unit outcome" where
  "commitNotify E dispatch beginUpdate' e F mutatedNodes w1 =
     andThen (commitBeforeUpdateListeners E dispatch e F mutatedNodes w1) (\<lambda>_ w8.
     andThen
       (triggerListeners E updateListeners e True (updatePayload e F mutatedNodes w1 w8) w8)
       (\<lambda>_ w9.
     andThen (triggerDeferredUpdateCallbacks E e (deferredObj (ed w1 e)) w9) (\<lambda>_ w10.
     triggerEnqueuedUpdates beginUpdate' e w10)))"

definition commitFinish ::
  "env \<Rightarrow> dispatch_fn \<Rightarrow> beginUpdate_fn \<Rightarrow> eid \<Rightarrow> commit_frame \<Rightarrow> mutated_nodes option \<Rightarrow> world
     \<Rightarrow> unit outcome" where
  "commitFinish E dispatch beginUpdate' e F mutatedNodes w =
     commitNotify E dispatch beginUpdate' e F mutatedNodes (commitFreeze (cPending F) w)"

text \<open>\<^verbatim>\<open>$commitPendingUpdates\<close>. The mutation observer is an object of the DOM: only whether
  the editor has one is kept.\<close>

definition commitFrame :: "eid \<Rightarrow> addr option \<Rightarrow> addr \<Rightarrow> world \<Rightarrow> commit_frame" where
  "commitFrame e recoveryEditorState pendingEditorState' w =
     \<lparr>cPending = pendingEditorState',
      cCurrent = editorState (ed w e),
      cRecovery = recoveryEditorState,
      cCurrentSelection = selection (states w (editorState (ed w e))),
      cPendingSelection = selection (states w pendingEditorState'),
      cNeedsUpdate = (dirtyType (ed w e) \<noteq> NO_DIRTY_NODES),
      cShouldSkipDOM = (headless (ed w e) \<or> rootElement (ed w e) = None),
      cRootElement = rootElement (ed w e),
      cPreviouslyUpdating = updating (ed w e),
      cPrevious = w\<rparr>"

text \<open>Lines 531 and 532: the pending state becomes the current one.\<close>

definition commitSwap :: "eid \<Rightarrow> addr \<Rightarrow> world \<Rightarrow> world" where
  "commitSwap e pendingEditorState' w =
     setEd e (\<lambda>x. x\<lparr>pendingEditorState := None, editorState := pendingEditorState'\<rparr>) w"

definition commitPendingUpdatesBody ::
  "env \<Rightarrow> commit_fn \<Rightarrow> dispatch_fn \<Rightarrow> beginUpdate_fn \<Rightarrow> eid \<Rightarrow> addr option \<Rightarrow> world \<Rightarrow> unit outcome" where
  "commitPendingUpdatesBody E commit dispatch beginUpdate' e recoveryEditorState w =
     (case pendingEditorState (ed w e) of
        None \<Rightarrow> Normal () w
      | Some pendingEditorState' \<Rightarrow>
          (let F = commitFrame e recoveryEditorState pendingEditorState' w;
               w1 = commitSwap e pendingEditorState' w
           in if \<not> cShouldSkipDOM F \<and> cNeedsUpdate F \<and> observer (ed w e) \<noteq> None
              then andThen (commitReconcile E commit e F w1)
                (\<lambda>mutatedNodes w2.
                   case mutatedNodes of
                     None \<Rightarrow> Normal () w2
                   | Some m \<Rightarrow> commitFinish E dispatch beginUpdate' e F (Some m) w2)
              else commitFinish E dispatch beginUpdate' e F None w1))"

section \<open>The update scheduler\<close>

text \<open>One turn of the loop of \<^verbatim>\<open>$processNestedUpdates\<close> on the array \<open>queuedUpdates\<close> that the
  function bound when it was entered; \<open>again\<close> is the rest of the loop.\<close>

type_synonym drain_fn = "eid \<Rightarrow> qaddr \<Rightarrow> bool \<Rightarrow> world \<Rightarrow> bool outcome"

text \<open>Lines 861 to 880: the options of a queued update.\<close>

definition queuedUpdateOptions ::
  "eid \<Rightarrow> update_options option \<Rightarrow> addr option \<Rightarrow> bool \<Rightarrow> world \<Rightarrow> bool outcome" where
  "queuedUpdateOptions e options pendingEditorState' skipTransforms' w1 =
     (case options of
        None \<Rightarrow> Normal skipTransforms' w1
      | Some opts \<Rightarrow>
          andThen
            (if discrete opts
             then (case pendingEditorState' of
                     None \<Rightarrow> invariantError
                       ''Unexpected empty pending editor state on discrete nested update'' w1
                   | Some p \<Rightarrow> Normal () (setState p (\<lambda>s. s\<lparr>flushSync := True\<rparr>) w1))
             else Normal () w1)
            (\<lambda>_ w2. Normal (skipTransforms' \<or> skipTransforms opts)
               (addTags e (tag opts)
                  (case onUpdate opts of
                     None \<Rightarrow> w2
                   | Some f \<Rightarrow> setEd e (\<lambda>x. x\<lparr>deferred := deferred x @ [f]\<rparr>) w2))))"

text \<open>Lines 882 to 886: the queued function starts a cycle of its own when there is no
  pending state, and is called in place otherwise.\<close>

definition runQueuedUpdate ::
  "env \<Rightarrow> beginUpdate_fn \<Rightarrow> eid \<Rightarrow> cb \<Rightarrow> update_options option \<Rightarrow> addr option \<Rightarrow> world
     \<Rightarrow> unit outcome" where
  "runQueuedUpdate E beginUpdate' e nextUpdateFn options pendingEditorState' w3 =
     (case pendingEditorState' of
        None \<Rightarrow> andThen (beginUpdate' e (UserFn nextUpdateFn) options w3) (\<lambda>_ w'. Normal () w')
      | Some p \<Rightarrow> runCallback E nextUpdateFn w3)"

definition processNestedUpdatesStep ::
  "env \<Rightarrow> beginUpdate_fn \<Rightarrow> drain_fn \<Rightarrow> eid \<Rightarrow> qaddr \<Rightarrow> bool \<Rightarrow> world \<Rightarrow> bool outcome" where
  "processNestedUpdatesStep E beginUpdate' again e queuedUpdates skipTransforms' w =
     (case queues w queuedUpdates of
        [] \<Rightarrow> Normal skipTransforms' w
      | queuedUpdate # rest \<Rightarrow>
          andThen
            (queuedUpdateOptions e (snd queuedUpdate) (pendingEditorState (ed w e)) skipTransforms'
               (setQueue queuedUpdates rest w))
            (\<lambda>skip w3.
               andThen
                 (runQueuedUpdate E beginUpdate' e (fst queuedUpdate) (snd queuedUpdate)
                    (pendingEditorState (ed w e)) w3)
                 (\<lambda>_ w4. again e queuedUpdates skip w4)))"

text \<open>The constants of \<^verbatim>\<open>$beginUpdate\<close>; \<open>uTags\<close> is the set of tags bound at line 898 and
  \<open>uPrevious\<close> is the world at lines 927 to 930.\<close>

record update_frame =
  uPending :: addr
  uCurrent :: addr
  uCloned :: bool
  uHeadless :: bool
  uEvent :: "nat option"
  uTags :: obj
  uPrevious :: world

text \<open>Lines 939 to 950: a cloned state is given its selection.\<close>

definition beginUpdateSeed :: "env \<Rightarrow> eid \<Rightarrow> update_frame \<Rightarrow> world \<Rightarrow> unit outcome" where
  "beginUpdateSeed E e F w =
     (if uCloned F
      then if uHeadless F
           then (case selection (states w (uCurrent F)) of
                   None \<Rightarrow> Normal () w
                 | Some sel \<Rightarrow> Normal () (setState (uPending F) (\<lambda>s. s\<lparr>selection := Some sel\<rparr>) w))
           else andThen (internalCreateSelection E e (uEvent F) w)
                  (\<lambda>sel w1. Normal () (setState (uPending F) (\<lambda>s. s\<lparr>selection := sel\<rparr>) w1))
      else Normal () w)"

definition SELECTION_LOST :: string where
  "SELECTION_LOST = ''updateEditor: selection has been lost because the previously selected nodes have been removed and selection wasn't moved to another node. Ensure selection changes after removing/replacing a selected node.''"

text \<open>Lines 979 to 1001.\<close>

definition validateSelection :: "addr \<Rightarrow> world \<Rightarrow> unit outcome" where
  "validateSelection p w =
     (case selection (states w p) of
        Some (RangeSelection anchorKey focusKey d) \<Rightarrow>
          if nodeMap (states w p) anchorKey = None \<or> nodeMap (states w p) focusKey = None
          then invariantError SELECTION_LOST w
          else Normal () w
      | Some (NodeSelection ns d) \<Rightarrow>
          if length ns = 0 then Normal () (setState p (\<lambda>s. s\<lparr>selection := None\<rparr>) w)
          else Normal () w
      | _ \<Rightarrow> Normal () w)"

text \<open>Lines 955 to 977: the selection transforms; if anything is dirty, the transforms (or
  only the normalization of text), a second drain of the queue and the collection of
  detached nodes; the check of the composition key.\<close>

definition beginUpdateAfterDrain ::
  "env \<Rightarrow> nat \<Rightarrow> nested_fn \<Rightarrow> eid \<Rightarrow> update_frame \<Rightarrow> key option \<Rightarrow> bool \<Rightarrow> world \<Rightarrow> unit outcome" where
  "beginUpdateAfterDrain E n nested e F startingCompositionKey skip w1 =
     andThen (applySelectionTransforms E (uPending F) e w1) (\<lambda>_ w2.
     andThen
       (if dirtyType (ed w2 e) \<noteq> NO_DIRTY_NODES
        then andThen
               (if skip then normalizeAllDirtyTextNodes E (uPending F) e w2
                else applyAllTransforms E n (uPending F) e w2) (\<lambda>_ w3.
             andThen (nested e False w3) (\<lambda>_ w4.
               garbageCollectDetachedNodes E (uCurrent F) (uPending F)
                 (dirtyLeaves (ed w4 e)) (dirtyElements (ed w4 e)) w4))
        else Normal () w2) (\<lambda>_ w5.
     Normal ()
       (if startingCompositionKey \<noteq> compositionKey (ed w5 e)
        then setState (uPending F) (\<lambda>s. s\<lparr>flushSync := True\<rparr>) w5 else w5)))"

text \<open>Lines 954 to 977: the queue is drained, then the rest.\<close>

definition beginUpdateConverge ::
  "env \<Rightarrow> nat \<Rightarrow> nested_fn \<Rightarrow> eid \<Rightarrow> update_frame \<Rightarrow> bool \<Rightarrow> key option \<Rightarrow> world \<Rightarrow> unit outcome" where
  "beginUpdateConverge E n nested e F skipTransforms' startingCompositionKey w =
     andThen (nested e skipTransforms' w)
       (\<lambda>skip w1. beginUpdateAfterDrain E n nested e F startingCompositionKey skip w1)"

text \<open>Lines 954 to 1001: what the \<^verbatim>\<open>try\<close> block does after the update function.\<close>

definition beginUpdateAfterFn ::
  "env \<Rightarrow> nat \<Rightarrow> nested_fn \<Rightarrow> eid \<Rightarrow> update_frame \<Rightarrow> bool \<Rightarrow> key option \<Rightarrow> world \<Rightarrow> unit outcome" where
  "beginUpdateAfterFn E n nested e F skipTransforms' startingCompositionKey w =
     andThen (beginUpdateConverge E n nested e F skipTransforms' startingCompositionKey w)
       (\<lambda>_ w6. validateSelection (uPending F) w6)"

text \<open>The \<^verbatim>\<open>try\<close> block, lines 939 to 1001, with the value the update function returned
  (\<open>False\<close> when it did not return).\<close>

definition beginUpdateTry ::
  "env \<Rightarrow> nat \<Rightarrow> nested_fn \<Rightarrow> eid \<Rightarrow> update_frame \<Rightarrow> updfn \<Rightarrow> bool \<Rightarrow> world
     \<Rightarrow> bool \<times> unit outcome" where
  "beginUpdateTry E n nested e F updateFn skipTransforms' w =
     (case beginUpdateSeed E e F w of
        Normal _ w1 \<Rightarrow>
          (case runUpdateFn E updateFn w1 of
             Normal returnVal w2 \<Rightarrow>
               (returnVal,
                beginUpdateAfterFn E n nested e F skipTransforms' (compositionKey (ed w1 e)) w2)
           | Throws t w2 \<Rightarrow> (False, Throws t w2)
           | OutOfFuel \<Rightarrow> (False, OutOfFuel))
      | Throws t w1 \<Rightarrow> (False, Throws t w1)
      | OutOfFuel \<Rightarrow> (False, OutOfFuel))"

text \<open>Lines 1009 to 1016: the state that was current when the cycle began is made the
  pending one, to be reconciled in full, and the dirty sets are emptied (the editor has a
  new set of dirty leaves; the map of dirty elements is cleared).\<close>

definition restoreExistingEditorState :: "eid \<Rightarrow> addr \<Rightarrow> world \<Rightarrow> world" where
  "restoreExistingEditorState e currentEditorState w =
     setEd e (\<lambda>x. (newDirtyLeaves x)\<lparr>pendingEditorState := Some currentEditorState,
                                           dirtyType := FULL_RECONCILE,
                                           cloneNotNeeded := [],
                                           dirtyElements := []\<rparr>) w"

text \<open>The \<^verbatim>\<open>catch\<close> block, lines 1002 to 1019.\<close>

definition beginUpdateCatch ::
  "env \<Rightarrow> commit_fn \<Rightarrow> eid \<Rightarrow> update_frame \<Rightarrow> thrown \<Rightarrow> world \<Rightarrow> unit outcome" where
  "beginUpdateCatch E commit e F error w =
     andThen (reportError E e error w)
       (\<lambda>_ w1. commit e None (restoreExistingEditorState e (uCurrent F) w1))"

text \<open>The \<^verbatim>\<open>finally\<close> block, lines 1020 to 1026.\<close>

definition beginUpdateFinally :: "eid \<Rightarrow> update_frame \<Rightarrow> world \<Rightarrow> world" where
  "beginUpdateFinally e F w =
     (setEd e (\<lambda>x. x\<lparr>updating := updating (ed (uPrevious F) e)\<rparr>)
        (restoreContext (uPrevious F) w))\<lparr>infiniteTransformCount := 0\<rparr>"

text \<open>Lines 938 to 1026: \<^verbatim>\<open>try\<close>, \<^verbatim>\<open>catch\<close> and \<^verbatim>\<open>finally\<close>. The result is the value of the
  update function and whether the \<^verbatim>\<open>catch\<close> block has returned from \<^verbatim>\<open>$beginUpdate\<close>.\<close>

definition beginUpdateScope ::
  "env \<Rightarrow> nat \<Rightarrow> nested_fn \<Rightarrow> commit_fn \<Rightarrow> eid \<Rightarrow> update_frame \<Rightarrow> updfn \<Rightarrow> bool \<Rightarrow> world
     \<Rightarrow> (bool \<times> bool) outcome" where
  "beginUpdateScope E n nested commit e F updateFn skipTransforms' w =
     tryFinally
       (case snd (beginUpdateTry E n nested e F updateFn skipTransforms' w) of
          Normal _ w1 \<Rightarrow>
            Normal (fst (beginUpdateTry E n nested e F updateFn skipTransforms' w), False) w1
        | Throws error w1 \<Rightarrow>
            andThen (beginUpdateCatch E commit e F error w1)
              (\<lambda>_ w2. Normal
                 (fst (beginUpdateTry E n nested e F updateFn skipTransforms' w), True) w2)
        | OutOfFuel \<Rightarrow> OutOfFuel)
       (beginUpdateFinally e F)"

text \<open>Lines 1028 to 1050: commit now, or in a microtask, or drop a cycle that changed
  nothing.\<close>

definition beginUpdateEpilogue ::
  "env \<Rightarrow> commit_fn \<Rightarrow> eid \<Rightarrow> update_frame \<Rightarrow> world \<Rightarrow> unit outcome" where
  "beginUpdateEpilogue E commit e F w =
     (let shouldUpdate = (dirtyType (ed w e) \<noteq> NO_DIRTY_NODES
                          \<or> length (deferred (ed w e)) > 0
                          \<or> editorStateHasDirtySelection E (uPending F) e w)
      in if shouldUpdate
         then if flushSync (states w (uPending F))
              then commit e None (setState (uPending F) (\<lambda>s. s\<lparr>flushSync := False\<rparr>) w)
              else if uCloned F then Normal () (w\<lparr>microtasks := microtasks w @ [e]\<rparr>)
              else Normal () w
         else if uCloned F
              then Normal ()
                     (setEd e (\<lambda>x. (newDeferred (clearTagsOf (uTags F) x))
                                        \<lparr>pendingEditorState := None\<rparr>)
                        (setState (uPending F) (\<lambda>s. s\<lparr>flushSync := False\<rparr>) w))
              else Normal () (setState (uPending F) (\<lambda>s. s\<lparr>flushSync := False\<rparr>) w))"

text \<open>Lines 898 to 937: the options, the pending state (cloned when there is none or when it
  is read-only), the new ambient context.\<close>

definition beginUpdateOptions :: "eid \<Rightarrow> update_options option \<Rightarrow> world \<Rightarrow> world" where
  "beginUpdateOptions e options w =
     (case options of
        None \<Rightarrow> w
      | Some opts \<Rightarrow>
          (case onUpdate opts of
             None \<Rightarrow> addTags e (tag opts) w
           | Some f \<Rightarrow> setEd e (\<lambda>x. x\<lparr>deferred := deferred x @ [f]\<rparr>) (addTags e (tag opts) w)))"

definition beginUpdateClone :: "env \<Rightarrow> eid \<Rightarrow> world \<Rightarrow> (addr \<times> bool) \<times> world" where
  "beginUpdateClone E e w =
     (case pendingEditorState (ed w e) of
        None \<Rightarrow>
          (let a = allocState (cloneEditorState E (states w (editorState (ed w e)))) w
           in ((fst a, True), setEd e (\<lambda>x. x\<lparr>pendingEditorState := Some (fst a)\<rparr>) (snd a)))
      | Some p \<Rightarrow>
          if readOnly (states w p)
          then (let a = allocState (cloneEditorState E (states w p)) w
                in ((fst a, True), setEd e (\<lambda>x. x\<lparr>pendingEditorState := Some (fst a)\<rparr>) (snd a)))
          else ((p, False), w))"

definition optionSkipTransforms :: "update_options option \<Rightarrow> bool" where
  "optionSkipTransforms options = (case options of None \<Rightarrow> False | Some opts \<Rightarrow> skipTransforms opts)"

definition optionDiscrete :: "update_options option \<Rightarrow> bool" where
  "optionDiscrete options = (case options of None \<Rightarrow> False | Some opts \<Rightarrow> discrete opts)"

text \<open>Lines 898 to 930: the world and the constants with which the cycle enters its scope.\<close>

definition beginUpdatePrepare :: "env \<Rightarrow> eid \<Rightarrow> update_options option \<Rightarrow> world \<Rightarrow> world" where
  "beginUpdatePrepare E e options w =
     setState (fst (fst (beginUpdateClone E e (beginUpdateOptions e options w))))
       (\<lambda>s. s\<lparr>flushSync := optionDiscrete options\<rparr>)
       (snd (beginUpdateClone E e (beginUpdateOptions e options w)))"

definition beginUpdateFrame :: "env \<Rightarrow> eid \<Rightarrow> update_options option \<Rightarrow> world \<Rightarrow> update_frame" where
  "beginUpdateFrame E e options w =
     \<lparr>uPending = fst (fst (beginUpdateClone E e (beginUpdateOptions e options w))),
      uCurrent = editorState (ed (beginUpdateOptions e options w) e),
      uCloned = snd (fst (beginUpdateClone E e (beginUpdateOptions e options w))),
      uHeadless = (headless (ed (beginUpdatePrepare E e options w) e)
                   \<or> rootElement (ed (beginUpdatePrepare E e options w) e) = None),
      uEvent = (case options of None \<Rightarrow> None | Some opts \<Rightarrow> event opts),
      uTags = updateTagsObj (ed w e),
      uPrevious = beginUpdatePrepare E e options w\<rparr>"

text \<open>Lines 931 to 934: the new ambient context is installed.\<close>

definition beginUpdateInstall :: "eid \<Rightarrow> addr \<Rightarrow> world \<Rightarrow> world" where
  "beginUpdateInstall e pendingEditorState' w =
     setEd e (\<lambda>x. x\<lparr>updating := True\<rparr>)
       (w\<lparr>activeEditorState := Some pendingEditorState', isReadOnlyMode := False,
          activeEditor := Some e\<rparr>)"

definition beginUpdateBody ::
  "env \<Rightarrow> nat \<Rightarrow> nested_fn \<Rightarrow> commit_fn \<Rightarrow> eid \<Rightarrow> updfn \<Rightarrow> update_options option \<Rightarrow> world
     \<Rightarrow> bool outcome" where
  "beginUpdateBody E n nested commit e updateFn options w =
     (let F = beginUpdateFrame E e options w
      in andThen
           (beginUpdateScope E n nested commit e F updateFn (optionSkipTransforms options)
              (beginUpdateInstall e (uPending F) (beginUpdatePrepare E e options w)))
           (\<lambda>r w4. if snd r then Normal (fst r) w4
                    else andThen (beginUpdateEpilogue E commit e F w4)
                           (\<lambda>_ w5. Normal (fst r) w5)))"

section \<open>Commands\<close>

text \<open>Modelled from the spec: \<^verbatim>\<open>getEditorsToPropagate\<close> of \<^verbatim>\<open>LexicalUtils\<close> is not among the
  sources. The spec has the dispatch walk "the ancestor chain from the outermost parent editor
  down to the target editor (so ancestors see the command first at a given priority)". The
  chain is followed for at most \<open>n\<close> editors.\<close>

fun getEditorsToPropagate :: "nat \<Rightarrow> world \<Rightarrow> eid \<Rightarrow> eid list option" where
  "getEditorsToPropagate 0 w e = None"
| "getEditorsToPropagate (Suc n) w e =
     (case parentEditor (ed w e) of
        None \<Rightarrow> Some [e]
      | Some parent \<Rightarrow> map_option (\<lambda>es. es @ [e]) (getEditorsToPropagate n w parent))"

definition updateEditorSync ::
  "env \<Rightarrow> beginUpdate_fn \<Rightarrow> eid \<Rightarrow> updfn \<Rightarrow> update_options option \<Rightarrow> world \<Rightarrow> bool outcome" where
  "updateEditorSync E beginUpdate' e updateFn options w =
     (if activeEditor w = Some e \<and> options = None then runUpdateFn E updateFn w
      else beginUpdate' e updateFn options w)"

text \<open>The inner loop of \<^verbatim>\<open>triggerCommandListeners\<close> (over the editors, at priority \<open>i\<close>) and
  the outer loop (over the priorities).\<close>

fun commandEditorsLoop ::
  "env \<Rightarrow> beginUpdate_fn \<Rightarrow> eid \<Rightarrow> string \<Rightarrow> nat \<Rightarrow> nat \<Rightarrow> eid list \<Rightarrow> world \<Rightarrow> bool outcome" where
  "commandEditorsLoop E beginUpdate' editor' type payload i [] w = Normal False w"
| "commandEditorsLoop E beginUpdate' editor' type payload i (currentEditor # rest) w =
     (case commands (ed w currentEditor) type of
        None \<Rightarrow> commandEditorsLoop E beginUpdate' editor' type payload i rest w
      | Some listenerInPriorityOrder \<Rightarrow>
          (case listenerInPriorityOrder i of
             None \<Rightarrow> commandEditorsLoop E beginUpdate' editor' type payload i rest w
           | Some listenersSet \<Rightarrow>
               andThen
                 (updateEditorSync E beginUpdate' currentEditor
                    (CommandFn listenersSet payload editor') None w)
                 (\<lambda>returnVal w'.
                    if returnVal then Normal True w'
                    else commandEditorsLoop E beginUpdate' editor' type payload i rest w')))"

fun commandPrioritiesLoop ::
  "env \<Rightarrow> beginUpdate_fn \<Rightarrow> eid \<Rightarrow> string \<Rightarrow> nat \<Rightarrow> nat list \<Rightarrow> eid list \<Rightarrow> world \<Rightarrow> bool outcome" where
  "commandPrioritiesLoop E beginUpdate' editor' type payload [] editors' w = Normal False w"
| "commandPrioritiesLoop E beginUpdate' editor' type payload (i # is) editors' w =
     andThen (commandEditorsLoop E beginUpdate' editor' type payload i editors' w)
       (\<lambda>returnVal w'.
          if returnVal then Normal True w'
          else commandPrioritiesLoop E beginUpdate' editor' type payload is editors' w')"

definition triggerCommandListenersBody ::
  "env \<Rightarrow> nat \<Rightarrow> beginUpdate_fn \<Rightarrow> eid \<Rightarrow> string \<Rightarrow> nat \<Rightarrow> world \<Rightarrow> bool outcome" where
  "triggerCommandListenersBody E n beginUpdate' editor' type payload w =
     (case getEditorsToPropagate n w editor' of
        None \<Rightarrow> OutOfFuel
      | Some editors' \<Rightarrow>
          commandPrioritiesLoop E beginUpdate' editor' type payload [4, 3, 2, 1, 0] editors' w)"

text \<open>
  The walk in the words of the spec, to be compared with the two loops above: the pairs of a
  priority and an editor are visited in one sequence, priority 4 first and priority 0 last,
  and at each priority the editors in the order of the chain; a visit runs the listeners
  registered at that priority of that editor, if there are any, in an \<^verbatim>\<open>updateSync\<close> scope; the
  first visit that is handled ends the walk with \<open>true\<close>; a walk that ends otherwise gives
  \<open>false\<close>.
\<close>

definition visitOrder :: "eid list \<Rightarrow> (nat \<times> eid) list" where
  "visitOrder editors' = concat (map (\<lambda>i. map (\<lambda>c. (i, c)) editors') [4, 3, 2, 1, 0])"

definition commandVisit ::
  "env \<Rightarrow> beginUpdate_fn \<Rightarrow> eid \<Rightarrow> string \<Rightarrow> nat \<Rightarrow> nat \<times> eid \<Rightarrow> world \<Rightarrow> bool outcome" where
  "commandVisit E beginUpdate' editor' type payload v w =
     (case commands (ed w (snd v)) type of
        None \<Rightarrow> Normal False w
      | Some listenerInPriorityOrder \<Rightarrow>
          (case listenerInPriorityOrder (fst v) of
             None \<Rightarrow> Normal False w
           | Some listenersSet \<Rightarrow>
               updateEditorSync E beginUpdate' (snd v) (CommandFn listenersSet payload editor') None w))"

fun dispatchInOrder ::
  "env \<Rightarrow> beginUpdate_fn \<Rightarrow> eid \<Rightarrow> string \<Rightarrow> nat \<Rightarrow> (nat \<times> eid) list \<Rightarrow> world \<Rightarrow> bool outcome" where
  "dispatchInOrder E beginUpdate' editor' type payload [] w = Normal False w"
| "dispatchInOrder E beginUpdate' editor' type payload (v # vs) w =
     andThen (commandVisit E beginUpdate' editor' type payload v w)
       (\<lambda>handled w'. if handled then Normal True w'
                     else dispatchInOrder E beginUpdate' editor' type payload vs w')"

section \<open>The module\<close>

text \<open>The four functions that call each other, with fuel: each call into the module costs
  one unit, and a function out of fuel has not returned.\<close>

function beginUpdate :: "env \<Rightarrow> nat \<Rightarrow> eid \<Rightarrow> updfn \<Rightarrow> update_options option \<Rightarrow> world \<Rightarrow> bool outcome"
  and drainQueuedUpdates :: "env \<Rightarrow> nat \<Rightarrow> eid \<Rightarrow> qaddr \<Rightarrow> bool \<Rightarrow> world \<Rightarrow> bool outcome"
  and commitPendingUpdates :: "env \<Rightarrow> nat \<Rightarrow> eid \<Rightarrow> addr option \<Rightarrow> world \<Rightarrow> unit outcome"
  and triggerCommandListeners :: "env \<Rightarrow> nat \<Rightarrow> eid \<Rightarrow> string \<Rightarrow> nat \<Rightarrow> world \<Rightarrow> bool outcome"
where
  "beginUpdate E 0 e updateFn options w = OutOfFuel"
| "beginUpdate E (Suc n) e updateFn options w =
     beginUpdateBody E n
       (\<lambda>e' s w'. drainQueuedUpdates E n e' (updates (ed w' e')) s w')
       (\<lambda>e' r w'. commitPendingUpdates E n e' r w')
       e updateFn options w"
| "drainQueuedUpdates E 0 e queuedUpdates skipTransforms' w = OutOfFuel"
| "drainQueuedUpdates E (Suc n) e queuedUpdates skipTransforms' w =
     processNestedUpdatesStep E
       (\<lambda>e' f opts w'. beginUpdate E n e' f opts w')
       (\<lambda>e' q s w'. drainQueuedUpdates E n e' q s w')
       e queuedUpdates skipTransforms' w"
| "commitPendingUpdates E 0 e recoveryEditorState w = OutOfFuel"
| "commitPendingUpdates E (Suc n) e recoveryEditorState w =
     commitPendingUpdatesBody E
       (\<lambda>e' r w'. commitPendingUpdates E n e' r w')
       (\<lambda>e' ty pl w'. triggerCommandListeners E n e' ty pl w')
       (\<lambda>e' f opts w'. beginUpdate E n e' f opts w')
       e recoveryEditorState w"
| "triggerCommandListeners E 0 e type payload w = OutOfFuel"
| "triggerCommandListeners E (Suc n) e type payload w =
     triggerCommandListenersBody E n
       (\<lambda>e' f opts w'. beginUpdate E n e' f opts w')
       e type payload w"
  by pat_completeness auto

termination
  by (relation "measure (\<lambda>x. case x of
        Inl (Inl (E, n, r)) \<Rightarrow> n
      | Inl (Inr (E, n, r)) \<Rightarrow> n
      | Inr (Inl (E, n, r)) \<Rightarrow> n
      | Inr (Inr (E, n, r)) \<Rightarrow> n)") auto

text \<open>\<^verbatim>\<open>$processNestedUpdates\<close>: the array in the editor's field is bound once, then drained.\<close>

definition processNestedUpdates :: "env \<Rightarrow> nat \<Rightarrow> eid \<Rightarrow> bool \<Rightarrow> world \<Rightarrow> bool outcome" where
  "processNestedUpdates E n e skipTransforms' w =
     drainQueuedUpdates E n e (updates (ed w e)) skipTransforms' w"

lemma beginUpdate_Suc:
  "beginUpdate E (Suc n) e updateFn options w =
     beginUpdateBody E n (processNestedUpdates E n) (commitPendingUpdates E n) e updateFn options w"
  by (simp add: processNestedUpdates_def [abs_def])

declare beginUpdate.simps(2) [simp del]

declare beginUpdate_Suc [simp]

definition updateEditor ::
  "env \<Rightarrow> nat \<Rightarrow> eid \<Rightarrow> cb \<Rightarrow> update_options option \<Rightarrow> world \<Rightarrow> unit outcome" where
  "updateEditor E n e updateFn options w =
     (if updating (ed w e)
      then Normal ()
             (setQueue (updates (ed w e)) (queues w (updates (ed w e)) @ [(updateFn, options)]) w)
      else andThen (beginUpdate E n e (UserFn updateFn) options w) (\<lambda>_ w'. Normal () w'))"

text \<open>Modelled from the spec: \<^verbatim>\<open>dispatchCommand\<close> of \<^verbatim>\<open>LexicalUtils\<close> is not among the sources;
  the spec describes it as the walk that \<^verbatim>\<open>triggerCommandListeners\<close> makes.\<close>

definition dispatchCommand :: "env \<Rightarrow> nat \<Rightarrow> eid \<Rightarrow> string \<Rightarrow> nat \<Rightarrow> world \<Rightarrow> bool outcome" where
  "dispatchCommand E n e type payload w = triggerCommandListeners E n e type payload w"

text \<open>\<^verbatim>\<open>LexicalEditor.read\<close>: the pending updates are committed, then the callback reads the
  editor's state. \<^verbatim>\<open>EditorState.read\<close> is not among the sources; with the option
  \<^verbatim>\<open>{editor: this}\<close> it is \<^verbatim>\<open>readEditorState\<close> of this editor and this state.\<close>

definition editorRead :: "env \<Rightarrow> nat \<Rightarrow> eid \<Rightarrow> (world \<Rightarrow> 'a outcome) \<Rightarrow> world \<Rightarrow> 'a outcome" where
  "editorRead E n e callbackFn w =
     andThen (commitPendingUpdates E n e None w)
       (\<lambda>_ w'. readEditorState (Some e) (editorState (ed w' e)) callbackFn w')"

section \<open>A small world for the examples\<close>

text \<open>An environment in which every collaborator returns at once, an editor with a root
  element and an observer, and a world in which every editor is that editor.\<close>

definition rootNode :: lexical_node where
  "rootNode = \<lparr>nkey = ''root'', ntype = ''root'', isTextNode = False, isSimpleText = False,
     isUnmergeable = False\<rparr>"

definition emptyState :: editor_state where
  "emptyState = \<lparr>nodeMap = (\<lambda>k. if k = ''root'' then Some rootNode else None), selection = None,
     flushSync = False, readOnly = False\<rparr>"

definition quietEnv :: env where
  "quietEnv = \<lparr>
     runCallback = (\<lambda>f w. Normal () w),
     runTransform = (\<lambda>t node w. Normal () w),
     runListener = (\<lambda>l payload w. Normal () w),
     runCommandListener = (\<lambda>l payload e w. Normal False w),
     runOnError = (\<lambda>f err w. Normal () w),
     reconcileRoot = (\<lambda>prev next e dt des dls w. Normal [] w),
     normalizeTextNode = (\<lambda>node w. Normal () w),
     isAttached = (\<lambda>node w. True),
     getCompositionKey = (\<lambda>w. None),
     internalCreateSelection = (\<lambda>e ev w. Normal None w),
     applySelectionTransforms = (\<lambda>a e w. Normal () w),
     garbageCollectDetachedNodes = (\<lambda>prev next dls des w. Normal () w),
     garbageCollectDetachedDecorators = (\<lambda>e a w. Normal () w),
     getDOMSelection = (\<lambda>e w. Normal None w),
     updateDOMSelection = (\<lambda>prev next e ds tags w. Normal () w),
     updateDOMBlockCursorElement = (\<lambda>e sel w. Normal () w),
     removeDOMBlockCursorElement = (\<lambda>b e w. Normal () w),
     initMutationObserver = (\<lambda>e w. Normal () (setEd e (\<lambda>x. x\<lparr>observer := Some 0\<rparr>) w)),
     editorStateHasDirtySelection = (\<lambda>a e w. False),
     getEditorStateTextContent = (\<lambda>a w. []),
     selectionIs = (\<lambda>a b. a = b),
     cloneEditorState = (\<lambda>s. s\<lparr>selection := None, flushSync := False, readOnly := False\<rparr>),
     createEmptyEditorState = emptyState,
     importJSON = (\<lambda>k s w. Normal rootNode w),
     isElementNode = (\<lambda>node. True),
     appendChild = (\<lambda>parent child w. Normal () w)\<rparr>"

definition blankEditor :: editor where
  "blankEditor = \<lparr>
     headless = False, parentEditor = None, rootElement = Some 0, editorState = 0,
     pendingEditorState = None, compositionKey = None, deferred = [], keyToDOMMap = [],
     updates = 0, updating = False, decoratorListeners = [], mutationListeners = [],
     textcontentListeners = [], updateListeners = [], commands = (\<lambda>c. None),
     nodes = (\<lambda>ty. None), decorators = 0, pendingDecorators = None,
     dirtyType = NO_DIRTY_NODES, cloneNotNeeded = [], dirtyLeaves = [], dirtyElements = [],
     normalizedNodes = [], updateTags = [], observer = Some 0, onError = 0, editable = True,
     blockCursorElement = None,
     dirtyLeavesObj = 0, dirtyElementsObj = 1, normalizedNodesObj = 2, updateTagsObj = 3,
     deferredObj = 4, pastKeySets = (\<lambda>r. []), pastKeyMaps = (\<lambda>r. []), pastTagSets = (\<lambda>r. []),
     pastArrays = (\<lambda>r. []), nextObject = 5\<rparr>"

definition blankWorld :: world where
  "blankWorld = \<lparr>
     activeEditorState = None, activeEditor = None, isReadOnlyMode = False,
     isAttemptingToRecoverFromReconcilerError = False, infiniteTransformCount = 0,
     editors = (\<lambda>e. blankEditor), states = (\<lambda>a. emptyState), nextAddr = 1,
     queues = (\<lambda>q. []), nextQueue = 1,
     microtasks = [], transformLog = []\<rparr>"

text \<open>An environment whose update functions throw an error, and a world inside the read
  scope of editor 7.\<close>

definition boomEnv :: env where
  "boomEnv = quietEnv\<lparr>runCallback := \<lambda>f w. Throws (ErrorObject ''boom'') w\<rparr>"

definition readingWorld :: world where
  "readingWorld = blankWorld\<lparr>activeEditor := Some 7, isReadOnlyMode := True\<rparr>"

definition exited :: "'a outcome \<Rightarrow> bool" where
  "exited r = (case r of OutOfFuel \<Rightarrow> False | _ \<Rightarrow> True)"

definition returned :: "'a outcome \<Rightarrow> bool" where
  "returned r = (case r of Normal x w \<Rightarrow> True | _ \<Rightarrow> False)"

definition thrownValue :: "'a outcome \<Rightarrow> thrown option" where
  "thrownValue r = (case r of Throws t w \<Rightarrow> Some t | _ \<Rightarrow> None)"

definition finalWorld :: "'a outcome \<Rightarrow> world option" where
  "finalWorld r = (case r of Normal x w \<Rightarrow> Some w | Throws t w \<Rightarrow> Some w | OutOfFuel \<Rightarrow> None)"

text \<open>An update function that throws a value that is no \<^verbatim>\<open>Error\<close>, and an error sink that
  throws whenever it is called.\<close>

definition valueThrowingEnv :: env where
  "valueThrowingEnv = quietEnv\<lparr>
     runCallback := \<lambda>f w. Throws (OtherValue ''not an Error'') w,
     runOnError := \<lambda>f err w. Throws (ErrorObject ''the sink was called'') w\<rparr>"

definition strictSinkEnv :: env where
  "strictSinkEnv = boomEnv\<lparr>
     runOnError := \<lambda>f err w. Throws (ErrorObject ''the sink was called'') w\<rparr>"

text \<open>The selection collaborator gives a new state a range selection on two keys that are
  not in the node map, or a node selection with no node.\<close>

definition lostSelectionEnv :: env where
  "lostSelectionEnv = quietEnv\<lparr>
     internalCreateSelection := \<lambda>e ev w. Normal (Some (RangeSelection ''a'' ''b'' False)) w\<rparr>"

definition emptyNodeSelectionEnv :: env where
  "emptyNodeSelectionEnv = quietEnv\<lparr>
     internalCreateSelection := \<lambda>e ev w. Normal (Some (NodeSelection [] False)) w\<rparr>"

text \<open>An update listener that throws when it is called and a renderer that throws when it
  is called; a world whose editor has a pending state and no dirty node, with one update
  listener; an update that asks for a callback and for a synchronous commit.\<close>

definition updateListenerEnv :: env where
  "updateListenerEnv = quietEnv\<lparr>
     runListener := \<lambda>l payload w.
       (case payload of
          UpdatePayload des dls st m ns prev tags \<Rightarrow> Throws (OtherValue ''update listener fired'') w
        | _ \<Rightarrow> Normal () w),
     reconcileRoot := \<lambda>prev next e dt des dls w. Throws (OtherValue ''renderer invoked'') w\<rparr>"

definition cleanPendingWorld :: world where
  "cleanPendingWorld =
     blankWorld\<lparr>editors := \<lambda>e. blankEditor\<lparr>pendingEditorState := Some 1, updateListeners := [5]\<rparr>\<rparr>"

definition listeningWorld :: world where
  "listeningWorld = blankWorld\<lparr>editors := \<lambda>e. blankEditor\<lparr>updateListeners := [5]\<rparr>\<rparr>"

definition discreteOnUpdate :: update_options where
  "discreteOnUpdate = \<lparr>onUpdate = Some 9, skipTransforms = False, tag = NoTag, discrete = True,
     event = None\<rparr>"

text \<open>A world whose editor has a pending state and dirty nodes; renderers that throw unless
  they are asked for a full reconcile.\<close>

definition dirtyPendingWorld :: world where
  "dirtyPendingWorld =
     blankWorld\<lparr>editors := \<lambda>e. blankEditor\<lparr>pendingEditorState := Some 1,
                                             dirtyType := HAS_DIRTY_NODES\<rparr>\<rparr>"

definition failOnceEnv :: env where
  "failOnceEnv = quietEnv\<lparr>
     reconcileRoot := \<lambda>prev next e dt des dls w.
       if dt = FULL_RECONCILE then Normal [] w else Throws (ErrorObject ''render failed'') w\<rparr>"

definition failAlwaysEnv :: env where
  "failAlwaysEnv = quietEnv\<lparr>
     reconcileRoot := \<lambda>prev next e dt des dls w.
       Throws (ErrorObject (if dt = FULL_RECONCILE then ''render failed again''
                            else ''render failed'')) w\<rparr>"

definition failOnceValueEnv :: env where
  "failOnceValueEnv = quietEnv\<lparr>
     reconcileRoot := \<lambda>prev next e dt des dls w.
       if dt = FULL_RECONCILE then Normal [] w else Throws (OtherValue ''render failed'') w,
     runOnError := \<lambda>f err w. Throws (ErrorObject ''the sink was called'') w\<rparr>"

definition failOnceStrictSinkEnv :: env where
  "failOnceStrictSinkEnv = failOnceEnv\<lparr>
     runOnError := \<lambda>f err w. Throws (ErrorObject ''the sink was called'') w\<rparr>"

text \<open>Update functions that record their name in the update tags, the first of which also
  calls \<^verbatim>\<open>editor.update\<close>; a world whose editor is updating, with three queued updates. And
  update functions of which function 0 queues function 1 and dirties the document, and
  function 1 calls \<^verbatim>\<open>editor.read\<close> and then \<^verbatim>\<open>editor.update\<close>, under a renderer that fails once.\<close>

definition orderEnv :: env where
  "orderEnv = quietEnv\<lparr>
     runCallback := \<lambda>f w.
       andThen (if f = 1 then updateEditor quietEnv 0 0 4 None w else Normal () w)
         (\<lambda>_ w'. Normal ()
            (setEd 0 (\<lambda>x. x\<lparr>updateTags := updateTags x @
               [if f = 1 then ''first'' else if f = 2 then ''second''
                else if f = 3 then ''third'' else ''enqueued while draining'']\<rparr>) w'))\<rparr>"

definition drainingWorld :: world where
  "drainingWorld =
     blankWorld\<lparr>editors := \<lambda>e. blankEditor\<lparr>pendingEditorState := Some 1, updating := True\<rparr>,
                 queues := \<lambda>q. if q = 0 then [(1, None), (2, None), (3, None)] else []\<rparr>"

definition readThenUpdateEnv :: env where
  "readThenUpdateEnv = failOnceEnv\<lparr>
     runCallback := \<lambda>f w.
       if f = 0
       then andThen (updateEditor failOnceEnv 0 0 1 None w)
              (\<lambda>_ w'. Normal () (setEd 0 (\<lambda>x. x\<lparr>dirtyType := HAS_DIRTY_NODES\<rparr>) w'))
       else if f = 1
       then andThen (editorRead failOnceEnv 4 0 (\<lambda>w'. Normal () w') w)
              (\<lambda>_ w'. updateEditor failOnceEnv 0 0 4 None w')
       else Normal () w\<rparr>"

text \<open>Editor 1 with parent editor 0: one listener of the command at priority 1 on the
  parent, one at priority 1 and one at priority 0 on editor 1. Each listener records its
  name; the listener at priority 1 of editor 1 handles the command.\<close>

definition nestedEditorsWorld :: world where
  "nestedEditorsWorld =
     blankWorld\<lparr>editors := \<lambda>e.
       if e = 1
       then blankEditor\<lparr>parentEditor := Some 0, updates := 1,
              commands := \<lambda>c. if c = ''CMD''
                then Some (\<lambda>i. if i = 1 then Some [11] else if i = 0 then Some [12] else None)
                else None\<rparr>
       else blankEditor\<lparr>
              commands := \<lambda>c. if c = ''CMD''
                then Some (\<lambda>i. if i = 1 then Some [10] else None)
                else None\<rparr>\<rparr>"

definition commandEnv :: env where
  "commandEnv = quietEnv\<lparr>
     runCommandListener := \<lambda>l payload t w.
       Normal (l = 11)
         (setEd 0 (\<lambda>x. x\<lparr>normalizedNodes := normalizedNodes x @
            [if l = 10 then ''parent editor, priority 1''
             else if l = 11 then ''target editor, priority 1''
             else ''target editor, priority 0'']\<rparr>) w)\<rparr>"

lemmas example_defs = quietEnv_def blankEditor_def blankWorld_def emptyState_def rootNode_def
  exited_def returned_def thrownValue_def finalWorld_def boomEnv_def readingWorld_def
  failAlwaysEnv_def
  valueThrowingEnv_def strictSinkEnv_def lostSelectionEnv_def emptyNodeSelectionEnv_def
  updateListenerEnv_def cleanPendingWorld_def listeningWorld_def discreteOnUpdate_def
  dirtyPendingWorld_def failOnceEnv_def failOnceValueEnv_def failOnceStrictSinkEnv_def
  orderEnv_def drainingWorld_def readThenUpdateEnv_def nestedEditorsWorld_def commandEnv_def

lemma three: "(3::nat) = Suc (Suc (Suc 0))"
  by simp

lemma two: "(2::nat) = Suc (Suc 0)"
  by simp

lemma four: "(4::nat) = Suc (Suc (Suc (Suc 0)))"
  by simp

lemma five: "(5::nat) = Suc (Suc (Suc (Suc (Suc 0))))"
  by simp

lemma six: "(6::nat) = Suc (Suc (Suc (Suc (Suc (Suc 0)))))"
  by simp

lemma eight: "(8::nat) = Suc (Suc (Suc (Suc (Suc (Suc (Suc (Suc 0)))))))"
  by simp

lemmas state_defs = allocState_def setEd_def setState_def setQueue_def ed_def andThen_def tryFinally_def
  tryCatch_def restoreContext_def invariantError_def reportError_def
  leavesOf_def elementsOf_def normalizedOf_def tagsOf_def deferredOf_def clearTagsOf_def
  newDirtyLeaves_def newDirtyElements_def newNormalizedNodes_def newUpdateTags_def newDeferred_def
  putDirtyLeaves_def putDirtyElements_def

lemmas update_defs = beginUpdateBody_def beginUpdateScope_def beginUpdateTry_def
  beginUpdateFrame_def beginUpdatePrepare_def beginUpdateClone_def beginUpdateOptions_def
  beginUpdateInstall_def beginUpdateSeed_def beginUpdateAfterFn_def beginUpdateConverge_def
  beginUpdateAfterDrain_def
  beginUpdateEpilogue_def restoreExistingEditorState_def
  beginUpdateFinally_def beginUpdateCatch_def processNestedUpdatesStep_def validateSelection_def
  queuedUpdateOptions_def runQueuedUpdate_def
  optionSkipTransforms_def optionDiscrete_def processNestedUpdates_def

lemmas commit_defs = commitPendingUpdatesBody_def commitFrame_def commitSwap_def
  commitReconcile_def commitCatch_def commitInstall_def commitRestore_def markRecovery_def
  commitFinish_def commitNotify_def commitBeforeUpdateListeners_def updatePayload_def
  commitFreeze_def commitResetDirty_def
  commitDOMSelection_def boundLeaves_def boundElements_def boundNormalized_def boundTags_def
  triggerEnqueuedUpdates_def triggerDeferredUpdateCallbacks_def triggerListeners_def
  triggerTextContentListeners_def triggerMutationListeners_def resetEditor_def

section \<open>The ambient context is restored by every scope\<close>

text \<open>The ambient context: the active editor, the active state and the read-only flag.\<close>

definition ambient :: "world \<Rightarrow> eid option \<times> addr option \<times> bool" where
  "ambient w = (activeEditor w, activeEditorState w, isReadOnlyMode w)"

text \<open>\<open>exitsWith P r\<close>: the run \<open>r\<close>, if it has left the code (by return or by throw), has
  left it in a world that satisfies \<open>P\<close>.\<close>

definition exitsWith :: "(world \<Rightarrow> bool) \<Rightarrow> 'a outcome \<Rightarrow> bool" where
  "exitsWith P r = (case r of Normal x w \<Rightarrow> P w | Throws t w \<Rightarrow> P w | OutOfFuel \<Rightarrow> True)"

lemma exitsWith_tryFinally: "exitsWith P (tryFinally r f) = exitsWith (\<lambda>w. P (f w)) r"
  by (cases r) (simp_all add: exitsWith_def tryFinally_def)

lemma exitsWith_andThen_Normal: "exitsWith P (andThen r (\<lambda>x w. Normal (g x) w)) = exitsWith P r"
  by (cases r) (simp_all add: exitsWith_def andThen_def)

lemma exitsWith_True: "exitsWith (\<lambda>w. True) r"
  by (cases r) (simp_all add: exitsWith_def)

lemma exitsWith_andThen:
  assumes "exitsWith P r" and "\<And>x w. exitsWith P (f x w)"
  shows "exitsWith P (andThen r f)"
  using assms by (cases r) (simp_all add: exitsWith_def andThen_def)

lemma ambient_restoreContext [simp]: "ambient (restoreContext previous w) = ambient previous"
  by (simp add: ambient_def restoreContext_def)

lemma ambient_setEd [simp]: "ambient (setEd e f w) = ambient w"
  by (simp add: ambient_def setEd_def)

lemma ambient_setState [simp]: "ambient (setState a f w) = ambient w"
  by (simp add: ambient_def setState_def)

lemma ambient_allocState [simp]: "ambient (snd (allocState s w)) = ambient w"
  by (simp add: ambient_def allocState_def)

lemma ambient_counter [simp]: "ambient (w\<lparr>infiniteTransformCount := c\<rparr>) = ambient w"
  by (simp add: ambient_def)

lemma readEditorState_restores:
  "exitsWith (\<lambda>w'. ambient w' = ambient w) (readEditorState editor' editorState' callbackFn w)"
  by (simp add: readEditorState_def exitsWith_tryFinally exitsWith_True)

lemma parseEditorState_restores:
  "exitsWith (\<lambda>w'. ambient w' = ambient w) (parseEditorState E serializedRoot e updateFn w)"
  by (simp add: parseEditorState_def Let_def exitsWith_andThen_Normal exitsWith_tryFinally
        exitsWith_True)

lemma beginUpdateScope_restores:
  "exitsWith (\<lambda>w'. ambient w' = ambient (uPrevious F))
     (beginUpdateScope E n nested commit e F updateFn skipTransforms' w)"
  by (simp add: beginUpdateScope_def exitsWith_tryFinally beginUpdateFinally_def exitsWith_True)

lemma commitReconcile_restores:
  "exitsWith (\<lambda>w'. ambient w' = ambient (cPrevious F)) (commitReconcile E commit e F w)"
  by (simp add: commitReconcile_def commitRestore_def exitsWith_tryFinally exitsWith_True)

lemma ambient_addTags [simp]: "ambient (addTags e t w) = ambient w"
  by (cases t) simp_all

lemma ambient_beginUpdatePrepare [simp]: "ambient (beginUpdatePrepare E e options w) = ambient w"
  by (simp add: beginUpdatePrepare_def beginUpdateClone_def beginUpdateOptions_def Let_def
      split: option.splits)

text \<open>
  Claim C9. Every scope that installs a new ambient context restores, on every path by which
  it is left (return or throw), the context in force when the enclosing function was entered:
  reading a state, parsing a serialized state, the \<^verbatim>\<open>try\<close> \<dots> \<^verbatim>\<open>finally\<close> of an update cycle, and
  the rendering section of a commit. The functions that the last two call (nested updates,
  commits) are arbitrary here, so the statement covers any reentrant nesting.
\<close>

theorem scopes_restore_ambient_context:
  "exitsWith (\<lambda>w'. ambient w' = ambient w) (readEditorState editor' editorState' callbackFn w)
   \<and> exitsWith (\<lambda>w'. ambient w' = ambient w) (parseEditorState E serializedRoot e parseFn w)
   \<and> exitsWith (\<lambda>w'. ambient w' = ambient w)
        (beginUpdateScope E n nested commit e (beginUpdateFrame E e options w) updateFn
           (optionSkipTransforms options)
           (beginUpdateInstall e (uPending (beginUpdateFrame E e options w))
              (beginUpdatePrepare E e options w)))
   \<and> exitsWith (\<lambda>w'. ambient w' = ambient w)
        (commitReconcile E commit e (commitFrame e recoveryEditorState pendingEditorState' w)
           (commitSwap e pendingEditorState' w))"
proof -
  have "ambient (uPrevious (beginUpdateFrame E e options w)) = ambient w"
    by (simp add: beginUpdateFrame_def)
  moreover have "ambient (cPrevious (commitFrame e recoveryEditorState pendingEditorState' w)) = ambient w"
    by (simp add: commitFrame_def)
  ultimately show ?thesis
    using readEditorState_restores [of w editor' editorState' callbackFn]
      parseEditorState_restores [of w E serializedRoot e parseFn]
      beginUpdateScope_restores [of "beginUpdateFrame E e options w" E n nested commit e updateFn]
      commitReconcile_restores [of "commitFrame e recoveryEditorState pendingEditorState' w" E commit e]
    by simp
qed

text \<open>An update function that throws inside an outer read scope: the cycle takes its
  \<^verbatim>\<open>catch\<close> block, commits, and leaves the context of the outer scope in place.\<close>

theorem scopes_restore_ambient_context_witness:
  "exited (beginUpdateScope boomEnv 2
       (processNestedUpdates boomEnv 2) (commitPendingUpdates boomEnv 2) 0
       (beginUpdateFrame boomEnv 0 None readingWorld)
       (UserFn 0) (optionSkipTransforms None)
       (beginUpdateInstall 0 (uPending (beginUpdateFrame boomEnv 0 None readingWorld))
          (beginUpdatePrepare boomEnv 0 None readingWorld)))
   \<and> exitsWith (\<lambda>w'. ambient w' = (Some 7, None, True))
      (beginUpdateScope boomEnv 2
       (processNestedUpdates boomEnv 2) (commitPendingUpdates boomEnv 2) 0
       (beginUpdateFrame boomEnv 0 None readingWorld)
       (UserFn 0) (optionSkipTransforms None)
       (beginUpdateInstall 0 (uPending (beginUpdateFrame boomEnv 0 None readingWorld))
          (beginUpdatePrepare boomEnv 0 None readingWorld)))"
proof -
  have a: "ambient readingWorld = (Some 7, None, True)"
    by (simp add: ambient_def readingWorld_def blankWorld_def)
  have b: "exited (beginUpdateScope boomEnv 2
       (processNestedUpdates boomEnv 2) (commitPendingUpdates boomEnv 2) 0
       (beginUpdateFrame boomEnv 0 None readingWorld)
       (UserFn 0) (optionSkipTransforms None)
       (beginUpdateInstall 0 (uPending (beginUpdateFrame boomEnv 0 None readingWorld))
          (beginUpdatePrepare boomEnv 0 None readingWorld)))"
    by (simp add: two example_defs update_defs commit_defs state_defs Let_def)
  have c: "exitsWith (\<lambda>w'. ambient w' = ambient readingWorld)
      (beginUpdateScope boomEnv 2
       (processNestedUpdates boomEnv 2) (commitPendingUpdates boomEnv 2) 0
       (beginUpdateFrame boomEnv 0 None readingWorld)
       (UserFn 0) (optionSkipTransforms None)
       (beginUpdateInstall 0 (uPending (beginUpdateFrame boomEnv 0 None readingWorld))
          (beginUpdatePrepare boomEnv 0 None readingWorld)))"
    using scopes_restore_ambient_context
      [where w = readingWorld and E = boomEnv and n = 2
         and nested = "processNestedUpdates boomEnv 2"
         and commit = "commitPendingUpdates boomEnv 2" and e = 0 and options = None
         and updateFn = "UserFn 0"]
    by blast
  from b c show ?thesis
    unfolding a by (rule conjI)
qed

section \<open>An update cycle that throws\<close>

lemma uCurrent_beginUpdateFrame:
  "uCurrent (beginUpdateFrame E e options w) = editorState (ed w e)"
  by (cases options; cases "tag (the options)")
     (auto simp: beginUpdateFrame_def beginUpdateOptions_def ed_def setEd_def split: option.splits)

text \<open>
  Claim C2, as amended. When the \<^verbatim>\<open>try\<close> block of an update cycle throws, the cycle does
  exactly this: the thrown value is reported to the error sink if it is an \<^verbatim>\<open>Error\<close> (another
  thrown value is not reported); then the state that was current before the cycle is made
  the pending one with the full-reconcile marker, the dirty leaves and dirty elements are
  emptied, and the commit pipeline is run on that world; then \<^verbatim>\<open>$beginUpdate\<close> returns
  through its \<^verbatim>\<open>finally\<close> block, which schedules nothing. A throw of the sink or of the commit
  leaves through the same \<^verbatim>\<open>finally\<close> block.
\<close>

theorem update_cycle_error_path:
  assumes thrown:
    "snd (beginUpdateTry E n (processNestedUpdates E n) e (beginUpdateFrame E e options w) updateFn
        (optionSkipTransforms options)
        (beginUpdateInstall e (uPending (beginUpdateFrame E e options w))
           (beginUpdatePrepare E e options w)))
     = Throws error w1"
  shows
    "beginUpdate E (Suc n) e updateFn options w =
       tryFinally
         (andThen (reportError E e error w1) (\<lambda>_ w2.
            andThen (commitPendingUpdates E n e None
                       (restoreExistingEditorState e (editorState (ed w e)) w2)) (\<lambda>_ w3.
              Normal (fst (beginUpdateTry E n (processNestedUpdates E n) e
                        (beginUpdateFrame E e options w) updateFn (optionSkipTransforms options)
                        (beginUpdateInstall e (uPending (beginUpdateFrame E e options w))
                           (beginUpdatePrepare E e options w)))) w3)))
         (beginUpdateFinally e (beginUpdateFrame E e options w))
     \<and> reportError E e (ErrorObject msg) w1 = runOnError E (onError (ed w1 e)) (ErrorObject msg) w1
     \<and> reportError E e (OtherValue v) w1 = Normal () w1
     \<and> pendingEditorState (ed (restoreExistingEditorState e (editorState (ed w e)) w2) e)
         = Some (editorState (ed w e))
     \<and> dirtyType (ed (restoreExistingEditorState e (editorState (ed w e)) w2) e) = FULL_RECONCILE
     \<and> dirtyLeaves (ed (restoreExistingEditorState e (editorState (ed w e)) w2) e) = []
     \<and> dirtyElements (ed (restoreExistingEditorState e (editorState (ed w e)) w2) e) = []
     \<and> microtasks (beginUpdateFinally e (beginUpdateFrame E e options w) w3) = microtasks w3"
proof -
  have path: "beginUpdate E (Suc n) e updateFn options w =
       tryFinally
         (andThen (reportError E e error w1) (\<lambda>_ w2.
            andThen (commitPendingUpdates E n e None
                       (restoreExistingEditorState e (editorState (ed w e)) w2)) (\<lambda>_ w3.
              Normal (fst (beginUpdateTry E n (processNestedUpdates E n) e
                        (beginUpdateFrame E e options w) updateFn (optionSkipTransforms options)
                        (beginUpdateInstall e (uPending (beginUpdateFrame E e options w))
                           (beginUpdatePrepare E e options w)))) w3)))
         (beginUpdateFinally e (beginUpdateFrame E e options w))"
    using thrown
    by (simp add: beginUpdateBody_def Let_def beginUpdateScope_def beginUpdateCatch_def
        uCurrent_beginUpdateFrame andThen_def tryFinally_def split: outcome.splits)
  have forced: "pendingEditorState (ed (restoreExistingEditorState e (editorState (ed w e)) w2) e)
         = Some (editorState (ed w e))
     \<and> dirtyType (ed (restoreExistingEditorState e (editorState (ed w e)) w2) e) = FULL_RECONCILE
     \<and> dirtyLeaves (ed (restoreExistingEditorState e (editorState (ed w e)) w2) e) = []
     \<and> dirtyElements (ed (restoreExistingEditorState e (editorState (ed w e)) w2) e) = []"
    by (simp add: restoreExistingEditorState_def newDirtyLeaves_def ed_def setEd_def)
  have sink: "reportError E e (ErrorObject msg) w1 = runOnError E (onError (ed w1 e)) (ErrorObject msg) w1
     \<and> reportError E e (OtherValue v) w1 = Normal () w1"
    by (simp add: reportError_def)
  have sched: "microtasks (beginUpdateFinally e (beginUpdateFrame E e options w) w3) = microtasks w3"
    by (simp add: beginUpdateFinally_def setEd_def restoreContext_def)
  from path forced sink sched show ?thesis by blast
qed

text \<open>An update function that throws an \<^verbatim>\<open>Error\<close>, a sink that returns.\<close>

theorem update_cycle_error_path_witness:
  "\<exists>w1. snd (beginUpdateTry boomEnv 2 (processNestedUpdates boomEnv 2) 0
            (beginUpdateFrame boomEnv 0 None blankWorld) (UserFn 0) (optionSkipTransforms None)
            (beginUpdateInstall 0 (uPending (beginUpdateFrame boomEnv 0 None blankWorld))
               (beginUpdatePrepare boomEnv 0 None blankWorld)))
          = Throws (ErrorObject ''boom'') w1
     \<and> beginUpdate boomEnv 3 0 (UserFn 0) None blankWorld =
         tryFinally
           (andThen (reportError boomEnv 0 (ErrorObject ''boom'') w1) (\<lambda>_ w2.
              andThen (commitPendingUpdates boomEnv 2 0 None
                         (restoreExistingEditorState 0 (editorState (ed blankWorld 0)) w2)) (\<lambda>_ w3.
                Normal False w3)))
           (beginUpdateFinally 0 (beginUpdateFrame boomEnv 0 None blankWorld))
     \<and> returned (beginUpdate boomEnv 3 0 (UserFn 0) None blankWorld)"
proof -
  have "\<exists>w1. snd (beginUpdateTry boomEnv 2 (processNestedUpdates boomEnv 2) 0
            (beginUpdateFrame boomEnv 0 None blankWorld) (UserFn 0) (optionSkipTransforms None)
            (beginUpdateInstall 0 (uPending (beginUpdateFrame boomEnv 0 None blankWorld))
               (beginUpdatePrepare boomEnv 0 None blankWorld)))
          = Throws (ErrorObject ''boom'') w1"
    by (simp add: example_defs update_defs state_defs Let_def)
  then obtain w1 where h: "snd (beginUpdateTry boomEnv 2 (processNestedUpdates boomEnv 2) 0
            (beginUpdateFrame boomEnv 0 None blankWorld) (UserFn 0) (optionSkipTransforms None)
            (beginUpdateInstall 0 (uPending (beginUpdateFrame boomEnv 0 None blankWorld))
               (beginUpdatePrepare boomEnv 0 None blankWorld)))
          = Throws (ErrorObject ''boom'') w1" by blast
  have f: "fst (beginUpdateTry boomEnv 2 (processNestedUpdates boomEnv 2) 0
            (beginUpdateFrame boomEnv 0 None blankWorld) (UserFn 0) (optionSkipTransforms None)
            (beginUpdateInstall 0 (uPending (beginUpdateFrame boomEnv 0 None blankWorld))
               (beginUpdatePrepare boomEnv 0 None blankWorld))) = False"
    by (simp add: example_defs update_defs state_defs Let_def)
  have r: "returned (beginUpdate boomEnv 3 0 (UserFn 0) None blankWorld)"
    by (simp add: three two example_defs update_defs commit_defs state_defs Let_def)
  have "beginUpdate boomEnv (Suc 2) 0 (UserFn 0) None blankWorld =
         tryFinally
           (andThen (reportError boomEnv 0 (ErrorObject ''boom'') w1) (\<lambda>_ w2.
              andThen (commitPendingUpdates boomEnv 2 0 None
                         (restoreExistingEditorState 0 (editorState (ed blankWorld 0)) w2)) (\<lambda>_ w3.
                Normal False w3)))
           (beginUpdateFinally 0 (beginUpdateFrame boomEnv 0 None blankWorld))"
    using update_cycle_error_path [OF h] unfolding f by blast
  then show ?thesis using h r by (auto simp: eval_nat_numeral)
qed

text \<open>
  The claim as stated fails. An update function that throws a value that is no \<^verbatim>\<open>Error\<close>
  is not reported: with a sink that throws whenever it is called, the cycle returns. And
  when the sink throws on an \<^verbatim>\<open>Error\<close>, the cycle leaves by that throw: the pending state is
  still the clone (state 1, not the state 0 that was current) and nothing was marked for a
  full reconcile.
\<close>

theorem update_cycle_error_not_always_reported:
  "returned (beginUpdate valueThrowingEnv 3 0 (UserFn 0) None blankWorld)
   \<and> thrownValue (beginUpdate strictSinkEnv 3 0 (UserFn 0) None blankWorld)
       = Some (ErrorObject ''the sink was called'')
   \<and> map_option (\<lambda>w. (pendingEditorState (ed w 0), dirtyType (ed w 0)))
        (finalWorld (beginUpdate strictSinkEnv 3 0 (UserFn 0) None blankWorld))
       = Some (Some 1, NO_DIRTY_NODES)"
  by (simp add: three two example_defs update_defs commit_defs state_defs Let_def)

section \<open>Validation of the selection at the end of a cycle\<close>

text \<open>
  Claim C5. When the steps of the cycle before the validation have completed: a pending
  range selection whose anchor key or focus key is not in the pending node map makes the
  \<^verbatim>\<open>try\<close> block throw the selection-lost error, so that the cycle takes its \<^verbatim>\<open>catch\<close> block with
  that error; a pending node selection with an empty node set is replaced by no selection
  and the cycle goes on to decide about its commit.
\<close>

theorem selection_validation_asymmetry:
  assumes seeded:
      "beginUpdateSeed E e (beginUpdateFrame E e options w)
         (beginUpdateInstall e (uPending (beginUpdateFrame E e options w))
            (beginUpdatePrepare E e options w)) = Normal () w1"
    and ran: "runUpdateFn E updateFn w1 = Normal returnVal w2"
    and converged:
      "beginUpdateConverge E n (processNestedUpdates E n) e (beginUpdateFrame E e options w)
         (optionSkipTransforms options) (compositionKey (ed w1 e)) w2 = Normal () w3"
  shows
    "(selection (states w3 (uPending (beginUpdateFrame E e options w)))
          = Some (RangeSelection anchorKey focusKey d)
        \<and> (nodeMap (states w3 (uPending (beginUpdateFrame E e options w))) anchorKey = None
             \<or> nodeMap (states w3 (uPending (beginUpdateFrame E e options w))) focusKey = None)
      \<longrightarrow> beginUpdate E (Suc n) e updateFn options w
            = tryFinally
                (andThen
                   (beginUpdateCatch E (commitPendingUpdates E n) e (beginUpdateFrame E e options w)
                      (ErrorObject SELECTION_LOST) w3)
                   (\<lambda>_ w4. Normal returnVal w4))
                (beginUpdateFinally e (beginUpdateFrame E e options w)))
     \<and> (selection (states w3 (uPending (beginUpdateFrame E e options w)))
          = Some (NodeSelection [] d)
      \<longrightarrow> beginUpdate E (Suc n) e updateFn options w
            = andThen
                (beginUpdateEpilogue E (commitPendingUpdates E n) e (beginUpdateFrame E e options w)
                   (beginUpdateFinally e (beginUpdateFrame E e options w)
                      (setState (uPending (beginUpdateFrame E e options w))
                         (\<lambda>s. s\<lparr>selection := None\<rparr>) w3)))
                (\<lambda>_ w5. Normal returnVal w5))"
  using seeded ran converged
  by (simp add: beginUpdateBody_def Let_def beginUpdateTry_def beginUpdateScope_def
      beginUpdateAfterFn_def validateSelection_def invariantError_def andThen_def tryFinally_def
      split: outcome.splits)

text \<open>Both cases, in a world with only a root node.\<close>

theorem selection_validation_asymmetry_witness:
  "(\<exists>w3. beginUpdate lostSelectionEnv 3 0 (UserFn 0) None blankWorld
          = tryFinally
              (andThen
                 (beginUpdateCatch lostSelectionEnv (commitPendingUpdates lostSelectionEnv 2) 0
                    (beginUpdateFrame lostSelectionEnv 0 None blankWorld)
                    (ErrorObject SELECTION_LOST) w3)
                 (\<lambda>_ w4. Normal False w4))
              (beginUpdateFinally 0 (beginUpdateFrame lostSelectionEnv 0 None blankWorld)))
   \<and> (\<exists>w3. beginUpdate emptyNodeSelectionEnv 3 0 (UserFn 0) None blankWorld
          = andThen
              (beginUpdateEpilogue emptyNodeSelectionEnv (commitPendingUpdates emptyNodeSelectionEnv 2) 0
                 (beginUpdateFrame emptyNodeSelectionEnv 0 None blankWorld)
                 (beginUpdateFinally 0 (beginUpdateFrame emptyNodeSelectionEnv 0 None blankWorld)
                    (setState (uPending (beginUpdateFrame emptyNodeSelectionEnv 0 None blankWorld))
                       (\<lambda>s. s\<lparr>selection := None\<rparr>) w3)))
              (\<lambda>_ w5. Normal False w5))
   \<and> returned (beginUpdate emptyNodeSelectionEnv 3 0 (UserFn 0) None blankWorld)"
proof -
  have lost: "\<exists>w1 w2 w3.
      beginUpdateSeed lostSelectionEnv 0 (beginUpdateFrame lostSelectionEnv 0 None blankWorld)
         (beginUpdateInstall 0 (uPending (beginUpdateFrame lostSelectionEnv 0 None blankWorld))
            (beginUpdatePrepare lostSelectionEnv 0 None blankWorld)) = Normal () w1
    \<and> runUpdateFn lostSelectionEnv (UserFn 0) w1 = Normal False w2
    \<and> beginUpdateConverge lostSelectionEnv 2 (processNestedUpdates lostSelectionEnv 2) 0
         (beginUpdateFrame lostSelectionEnv 0 None blankWorld)
         (optionSkipTransforms None) (compositionKey (ed w1 0)) w2 = Normal () w3
    \<and> selection (states w3 (uPending (beginUpdateFrame lostSelectionEnv 0 None blankWorld)))
          = Some (RangeSelection ''a'' ''b'' False)
    \<and> nodeMap (states w3 (uPending (beginUpdateFrame lostSelectionEnv 0 None blankWorld))) ''a'' = None"
    by (simp add: two example_defs update_defs state_defs Let_def)
  have emptied: "\<exists>w1 w2 w3.
      beginUpdateSeed emptyNodeSelectionEnv 0 (beginUpdateFrame emptyNodeSelectionEnv 0 None blankWorld)
         (beginUpdateInstall 0 (uPending (beginUpdateFrame emptyNodeSelectionEnv 0 None blankWorld))
            (beginUpdatePrepare emptyNodeSelectionEnv 0 None blankWorld)) = Normal () w1
    \<and> runUpdateFn emptyNodeSelectionEnv (UserFn 0) w1 = Normal False w2
    \<and> beginUpdateConverge emptyNodeSelectionEnv 2 (processNestedUpdates emptyNodeSelectionEnv 2) 0
         (beginUpdateFrame emptyNodeSelectionEnv 0 None blankWorld)
         (optionSkipTransforms None) (compositionKey (ed w1 0)) w2 = Normal () w3
    \<and> selection (states w3 (uPending (beginUpdateFrame emptyNodeSelectionEnv 0 None blankWorld)))
          = Some (NodeSelection [] False)"
    by (simp add: two example_defs update_defs state_defs Let_def)
  have r: "returned (beginUpdate emptyNodeSelectionEnv 3 0 (UserFn 0) None blankWorld)"
    by (simp add: three two example_defs update_defs commit_defs state_defs Let_def)
  from lost obtain w1 w2 w3 where l:
     "beginUpdateSeed lostSelectionEnv 0 (beginUpdateFrame lostSelectionEnv 0 None blankWorld)
         (beginUpdateInstall 0 (uPending (beginUpdateFrame lostSelectionEnv 0 None blankWorld))
            (beginUpdatePrepare lostSelectionEnv 0 None blankWorld)) = Normal () w1"
     "runUpdateFn lostSelectionEnv (UserFn 0) w1 = Normal False w2"
     "beginUpdateConverge lostSelectionEnv 2 (processNestedUpdates lostSelectionEnv 2) 0
         (beginUpdateFrame lostSelectionEnv 0 None blankWorld)
         (optionSkipTransforms None) (compositionKey (ed w1 0)) w2 = Normal () w3"
     "selection (states w3 (uPending (beginUpdateFrame lostSelectionEnv 0 None blankWorld)))
          = Some (RangeSelection ''a'' ''b'' False)"
     "nodeMap (states w3 (uPending (beginUpdateFrame lostSelectionEnv 0 None blankWorld))) ''a'' = None"
    by blast
  from emptied obtain v1 v2 v3 where m:
     "beginUpdateSeed emptyNodeSelectionEnv 0 (beginUpdateFrame emptyNodeSelectionEnv 0 None blankWorld)
         (beginUpdateInstall 0 (uPending (beginUpdateFrame emptyNodeSelectionEnv 0 None blankWorld))
            (beginUpdatePrepare emptyNodeSelectionEnv 0 None blankWorld)) = Normal () v1"
     "runUpdateFn emptyNodeSelectionEnv (UserFn 0) v1 = Normal False v2"
     "beginUpdateConverge emptyNodeSelectionEnv 2 (processNestedUpdates emptyNodeSelectionEnv 2) 0
         (beginUpdateFrame emptyNodeSelectionEnv 0 None blankWorld)
         (optionSkipTransforms None) (compositionKey (ed v1 0)) v2 = Normal () v3"
     "selection (states v3 (uPending (beginUpdateFrame emptyNodeSelectionEnv 0 None blankWorld)))
          = Some (NodeSelection [] False)"
    by blast
  have s3: "Suc 2 = 3" by simp
  from selection_validation_asymmetry
      [OF l(1) l(2) l(3), where anchorKey = "''a''" and focusKey = "''b''" and d = False] l(4) l(5)
    selection_validation_asymmetry [OF m(1) m(2) m(3), where d = False] m(4) r
  show ?thesis unfolding s3 by blast
qed

section \<open>A renderer that throws\<close>

lemma commitFrame_sel [simp]:
  "cPending (commitFrame e r p w) = p"
  "cCurrent (commitFrame e r p w) = editorState (ed w e)"
  "cRecovery (commitFrame e r p w) = r"
  "cCurrentSelection (commitFrame e r p w) = selection (states w (editorState (ed w e)))"
  "cPendingSelection (commitFrame e r p w) = selection (states w p)"
  "cNeedsUpdate (commitFrame e r p w) = (dirtyType (ed w e) \<noteq> NO_DIRTY_NODES)"
  "cShouldSkipDOM (commitFrame e r p w) = (headless (ed w e) \<or> rootElement (ed w e) = None)"
  "cRootElement (commitFrame e r p w) = rootElement (ed w e)"
  "cPreviouslyUpdating (commitFrame e r p w) = updating (ed w e)"
  "cPrevious (commitFrame e r p w) = w"
  by (simp_all add: commitFrame_def)

text \<open>The rendering section of a commit whose renderer throws, and the whole commit.\<close>

lemma commit_renderer_throws:
  assumes pending: "pendingEditorState (ed w e) = Some p"
    and rendering: "\<not> headless (ed w e)" "rootElement (ed w e) \<noteq> None"
      "dirtyType (ed w e) \<noteq> NO_DIRTY_NODES" "observer (ed w e) \<noteq> None"
    and throws:
      "reconcileRoot E (editorState (ed w e)) p e (dirtyType (ed w e)) (dirtyElements (ed w e))
         (dirtyLeaves (ed w e)) (commitInstall e p (commitSwap e p w)) = Throws error w2"
  shows "commitPendingUpdates E (Suc n) e recoveryEditorState w
        = andThen
            (tryFinally
               (commitCatch E (commitPendingUpdates E n) e (commitFrame e recoveryEditorState p w)
                  error w2)
               (commitRestore e (commitFrame e recoveryEditorState p w)))
            (\<lambda>mutatedNodes w2.
               case mutatedNodes of
                 None \<Rightarrow> Normal () w2
               | Some m \<Rightarrow> commitFinish E (triggerCommandListeners E n) (beginUpdate E n) e
                            (commitFrame e recoveryEditorState p w) (Some m) w2)"
proof -
  have dirty: "dirtyType (ed (commitInstall e p (commitSwap e p w)) e) = dirtyType (ed w e)"
      "dirtyElements (ed (commitInstall e p (commitSwap e p w)) e) = dirtyElements (ed w e)"
      "dirtyLeaves (ed (commitInstall e p (commitSwap e p w)) e) = dirtyLeaves (ed w e)"
    by (simp_all add: commitInstall_def commitSwap_def ed_def setEd_def)
  have sect: "commitReconcile E (commitPendingUpdates E n) e (commitFrame e recoveryEditorState p w)
          (commitSwap e p w)
        = tryFinally
            (commitCatch E (commitPendingUpdates E n) e (commitFrame e recoveryEditorState p w) error w2)
            (commitRestore e (commitFrame e recoveryEditorState p w))"
    using throws
    by (simp add: commitReconcile_def dirty andThen_def tryCatch_def)
  show ?thesis
    using pending rendering
    by (simp add: commitPendingUpdatesBody_def Let_def sect)
qed

lemma commit_renderer_throws_flag_set:
  assumes pending: "pendingEditorState (ed w e) = Some p"
    and rendering: "\<not> headless (ed w e)" "rootElement (ed w e) \<noteq> None"
      "dirtyType (ed w e) \<noteq> NO_DIRTY_NODES" "observer (ed w e) \<noteq> None"
    and throws:
      "reconcileRoot E (editorState (ed w e)) p e (dirtyType (ed w e)) (dirtyElements (ed w e))
         (dirtyLeaves (ed w e)) (commitInstall e p (commitSwap e p w)) = Throws error w2"
    and sink: "reportError E e error w2 = Normal () w3"
    and flag: "isAttemptingToRecoverFromReconcilerError w3"
  shows "commitPendingUpdates E (Suc n) e recoveryEditorState w
        = Throws error (commitRestore e (commitFrame e recoveryEditorState p w) w3)"
  unfolding commit_renderer_throws [OF pending rendering throws]
  using sink flag
  by (simp add: commitCatch_def andThen_def tryFinally_def)

lemma commit_renderer_throws_flag_clear:
  assumes pending: "pendingEditorState (ed w e) = Some p"
    and rendering: "\<not> headless (ed w e)" "rootElement (ed w e) \<noteq> None"
      "dirtyType (ed w e) \<noteq> NO_DIRTY_NODES" "observer (ed w e) \<noteq> None"
    and throws:
      "reconcileRoot E (editorState (ed w e)) p e (dirtyType (ed w e)) (dirtyElements (ed w e))
         (dirtyLeaves (ed w e)) (commitInstall e p (commitSwap e p w)) = Throws error w2"
    and sink: "reportError E e error w2 = Normal () w3"
    and flag: "\<not> isAttemptingToRecoverFromReconcilerError w3"
  shows "commitPendingUpdates E (Suc n) e recoveryEditorState w
        = tryFinally
            (andThen
               (initMutationObserver E e (resetEditor E e None (rootElement (ed w e)) p w3))
               (\<lambda>_ w4.
                  andThen
                    (commitPendingUpdates E n e (Some (editorState (ed w e))) (markRecovery e w4))
                    (\<lambda>_ w5. Normal () (w5\<lparr>isAttemptingToRecoverFromReconcilerError := False\<rparr>))))
            (commitRestore e (commitFrame e recoveryEditorState p w))"
  unfolding commit_renderer_throws [OF pending rendering throws]
  using sink flag
  by (simp add: commitCatch_def andThen_def tryFinally_def split: outcome.splits)

text \<open>
  Claim C1, as amended. When the renderer throws while \<^verbatim>\<open>$commitPendingUpdates\<close> is
  reconciling, the thrown value is reported to the error sink if it is an \<^verbatim>\<open>Error\<close> (another
  thrown value is not reported). If the sink has returned and the module's flag
  \<^verbatim>\<open>isAttemptingToRecoverFromReconcilerError\<close> is not set, the editor is reset (its map from
  keys to DOM elements holds the root element only and the state that was being committed is
  pending again), the mutation observer is set up, the dirty type is the full-reconcile
  marker, the flag is set, and the commit is run again, once, with the state that was
  current as \<open>recoveryEditorState\<close>; the flag is cleared when that commit returns, and when it
  throws the outer commit throws the same value. In particular, if the renderer throws again
  in that commit, the sink returns and the flag is still set, no commit is run again, and
  the second value is thrown on to the caller of the outer commit. Whenever the flag is
  found set after the report, the value is thrown on and no commit is run again.
\<close>

theorem renderer_failure_recovery:
  assumes pending: "pendingEditorState (ed w e) = Some p"
    and rendering: "\<not> headless (ed w e)" "rootElement (ed w e) \<noteq> None"
      "dirtyType (ed w e) \<noteq> NO_DIRTY_NODES" "observer (ed w e) \<noteq> None"
    and throws:
      "reconcileRoot E (editorState (ed w e)) p e (dirtyType (ed w e)) (dirtyElements (ed w e))
         (dirtyLeaves (ed w e)) (commitInstall e p (commitSwap e p w)) = Throws error w2"
    and sink: "reportError E e error w2 = Normal () w3"
  shows
    "(\<not> isAttemptingToRecoverFromReconcilerError w3 \<longrightarrow>
        commitPendingUpdates E (Suc n) e recoveryEditorState w
        = tryFinally
            (andThen
               (initMutationObserver E e (resetEditor E e None (rootElement (ed w e)) p w3))
               (\<lambda>_ w4.
                  andThen
                    (commitPendingUpdates E n e (Some (editorState (ed w e))) (markRecovery e w4))
                    (\<lambda>_ w5. Normal () (w5\<lparr>isAttemptingToRecoverFromReconcilerError := False\<rparr>))))
            (commitRestore e (commitFrame e recoveryEditorState p w)))
     \<and> (\<not> isAttemptingToRecoverFromReconcilerError w3
          \<and> initMutationObserver E e (resetEditor E e None (rootElement (ed w e)) p w3) = Normal () w4
          \<and> commitPendingUpdates E n e (Some (editorState (ed w e))) (markRecovery e w4)
              = Throws error' w5 \<longrightarrow>
        commitPendingUpdates E (Suc n) e recoveryEditorState w
        = Throws error' (commitRestore e (commitFrame e recoveryEditorState p w) w5))
     \<and> (\<not> isAttemptingToRecoverFromReconcilerError w3
          \<and> initMutationObserver E e (resetEditor E e None (rootElement (ed w e)) p w3) = Normal () w4
          \<and> pendingEditorState (ed w4 e) = Some p
          \<and> \<not> headless (ed w4 e) \<and> rootElement (ed w4 e) \<noteq> None \<and> observer (ed w4 e) \<noteq> None
          \<and> reconcileRoot E (editorState (ed w4 e)) p e FULL_RECONCILE (dirtyElements (ed w4 e))
               (dirtyLeaves (ed w4 e)) (commitInstall e p (commitSwap e p (markRecovery e w4)))
              = Throws error2 w6
          \<and> reportError E e error2 w6 = Normal () w7
          \<and> isAttemptingToRecoverFromReconcilerError w7 \<longrightarrow>
        commitPendingUpdates E (Suc (Suc m)) e recoveryEditorState w
        = Throws error2
            (commitRestore e (commitFrame e recoveryEditorState p w)
               (commitRestore e
                  (commitFrame e (Some (editorState (ed w e))) p (markRecovery e w4)) w7)))
     \<and> (isAttemptingToRecoverFromReconcilerError w3 \<longrightarrow>
        commitPendingUpdates E (Suc n) e recoveryEditorState w
        = Throws error (commitRestore e (commitFrame e recoveryEditorState p w) w3))
     \<and> reportError E e (ErrorObject msg) w2 = runOnError E (onError (ed w2 e)) (ErrorObject msg) w2
     \<and> reportError E e (OtherValue v) w2 = Normal () w2
     \<and> keyToDOMMap (ed (resetEditor E e None (rootElement (ed w e)) p w3) e)
         = (case rootElement (ed w e) of None \<Rightarrow> [] | Some r \<Rightarrow> [(''root'', r)])
     \<and> pendingEditorState (ed (resetEditor E e None (rootElement (ed w e)) p w3) e) = Some p
     \<and> dirtyType (ed (markRecovery e w4) e) = FULL_RECONCILE
     \<and> isAttemptingToRecoverFromReconcilerError (markRecovery e w4)"
proof -
  note first = commit_renderer_throws_flag_clear [OF pending rendering throws sink]
  note second = commit_renderer_throws_flag_set [OF pending rendering throws sink]
  have a: "\<not> isAttemptingToRecoverFromReconcilerError w3 \<longrightarrow>
        commitPendingUpdates E (Suc n) e recoveryEditorState w
        = tryFinally
            (andThen
               (initMutationObserver E e (resetEditor E e None (rootElement (ed w e)) p w3))
               (\<lambda>_ w4.
                  andThen
                    (commitPendingUpdates E n e (Some (editorState (ed w e))) (markRecovery e w4))
                    (\<lambda>_ w5. Normal () (w5\<lparr>isAttemptingToRecoverFromReconcilerError := False\<rparr>))))
            (commitRestore e (commitFrame e recoveryEditorState p w))"
    using first by blast
  have b: "\<not> isAttemptingToRecoverFromReconcilerError w3
          \<and> initMutationObserver E e (resetEditor E e None (rootElement (ed w e)) p w3) = Normal () w4
          \<and> commitPendingUpdates E n e (Some (editorState (ed w e))) (markRecovery e w4)
              = Throws error' w5 \<longrightarrow>
        commitPendingUpdates E (Suc n) e recoveryEditorState w
        = Throws error' (commitRestore e (commitFrame e recoveryEditorState p w) w5)"
    using first by (simp add: andThen_def tryFinally_def)
  have c: "\<not> isAttemptingToRecoverFromReconcilerError w3
          \<and> initMutationObserver E e (resetEditor E e None (rootElement (ed w e)) p w3) = Normal () w4
          \<and> pendingEditorState (ed w4 e) = Some p
          \<and> \<not> headless (ed w4 e) \<and> rootElement (ed w4 e) \<noteq> None \<and> observer (ed w4 e) \<noteq> None
          \<and> reconcileRoot E (editorState (ed w4 e)) p e FULL_RECONCILE (dirtyElements (ed w4 e))
               (dirtyLeaves (ed w4 e)) (commitInstall e p (commitSwap e p (markRecovery e w4)))
              = Throws error2 w6
          \<and> reportError E e error2 w6 = Normal () w7
          \<and> isAttemptingToRecoverFromReconcilerError w7 \<longrightarrow>
        commitPendingUpdates E (Suc (Suc m)) e recoveryEditorState w
        = Throws error2
            (commitRestore e (commitFrame e recoveryEditorState p w)
               (commitRestore e
                  (commitFrame e (Some (editorState (ed w e))) p (markRecovery e w4)) w7))"
  proof (intro impI, elim conjE)
    assume clear: "\<not> isAttemptingToRecoverFromReconcilerError w3"
      and init: "initMutationObserver E e (resetEditor E e None (rootElement (ed w e)) p w3)
                   = Normal () w4"
      and p4: "pendingEditorState (ed w4 e) = Some p"
      and r4: "\<not> headless (ed w4 e)" "rootElement (ed w4 e) \<noteq> None" "observer (ed w4 e) \<noteq> None"
      and t2: "reconcileRoot E (editorState (ed w4 e)) p e FULL_RECONCILE (dirtyElements (ed w4 e))
               (dirtyLeaves (ed w4 e)) (commitInstall e p (commitSwap e p (markRecovery e w4)))
              = Throws error2 w6"
      and s2: "reportError E e error2 w6 = Normal () w7"
      and set: "isAttemptingToRecoverFromReconcilerError w7"
    have m: "ed (markRecovery e w4) e = (ed w4 e)\<lparr>dirtyType := FULL_RECONCILE\<rparr>"
      by (simp add: markRecovery_def ed_def setEd_def)
    have inner: "commitPendingUpdates E (Suc m) e (Some (editorState (ed w e))) (markRecovery e w4)
        = Throws error2
            (commitRestore e (commitFrame e (Some (editorState (ed w e))) p (markRecovery e w4)) w7)"
      by (rule commit_renderer_throws_flag_set [where ?w2.0 = w6])
         (insert p4 r4 t2 s2 set, simp_all add: m)
    note outer = commit_renderer_throws_flag_clear
      [OF pending rendering throws sink clear, where n = "Suc m"
         and recoveryEditorState = recoveryEditorState]
    show "commitPendingUpdates E (Suc (Suc m)) e recoveryEditorState w
        = Throws error2
            (commitRestore e (commitFrame e recoveryEditorState p w)
               (commitRestore e
                  (commitFrame e (Some (editorState (ed w e))) p (markRecovery e w4)) w7))"
      by (simp only: outer init inner andThen_def tryFinally_def outcome.case)
  qed
  have d: "isAttemptingToRecoverFromReconcilerError w3 \<longrightarrow>
        commitPendingUpdates E (Suc n) e recoveryEditorState w
        = Throws error (commitRestore e (commitFrame e recoveryEditorState p w) w3)"
    using second by blast
  have rest: "reportError E e (ErrorObject msg) w2 = runOnError E (onError (ed w2 e)) (ErrorObject msg) w2
     \<and> reportError E e (OtherValue v) w2 = Normal () w2
     \<and> keyToDOMMap (ed (resetEditor E e None (rootElement (ed w e)) p w3) e)
         = (case rootElement (ed w e) of None \<Rightarrow> [] | Some r \<Rightarrow> [(''root'', r)])
     \<and> pendingEditorState (ed (resetEditor E e None (rootElement (ed w e)) p w3) e) = Some p
     \<and> dirtyType (ed (markRecovery e w4) e) = FULL_RECONCILE
     \<and> isAttemptingToRecoverFromReconcilerError (markRecovery e w4)"
    by (simp add: reportError_def resetEditor_def markRecovery_def ed_def setEd_def allocState_def
        Let_def newDirtyLeaves_def newNormalizedNodes_def newUpdateTags_def)
  from a b c d rest show ?thesis by blast
qed

text \<open>A renderer that fails once: the commit recovers and returns. The same renderer while
  the recovery flag is set: the error is thrown on. A renderer that fails whenever it is
  called: the second error leaves the commit.\<close>

theorem renderer_failure_recovery_witness:
  "(\<exists>w3. commitPendingUpdates failOnceEnv 3 0 None dirtyPendingWorld
        = tryFinally
            (andThen
               (initMutationObserver failOnceEnv 0
                  (resetEditor failOnceEnv 0 None (rootElement (ed dirtyPendingWorld 0)) 1 w3))
               (\<lambda>_ w4.
                  andThen
                    (commitPendingUpdates failOnceEnv 2 0 (Some (editorState (ed dirtyPendingWorld 0)))
                       (markRecovery 0 w4))
                    (\<lambda>_ w5. Normal () (w5\<lparr>isAttemptingToRecoverFromReconcilerError := False\<rparr>))))
            (commitRestore 0 (commitFrame 0 None 1 dirtyPendingWorld)))
   \<and> returned (commitPendingUpdates failOnceEnv 3 0 None dirtyPendingWorld)
   \<and> (\<exists>w3. commitPendingUpdates failOnceEnv 3 0 None
              (dirtyPendingWorld\<lparr>isAttemptingToRecoverFromReconcilerError := True\<rparr>)
        = Throws (ErrorObject ''render failed'')
            (commitRestore 0
               (commitFrame 0 None 1
                  (dirtyPendingWorld\<lparr>isAttemptingToRecoverFromReconcilerError := True\<rparr>)) w3))
   \<and> (\<exists>w4 w7. commitPendingUpdates failAlwaysEnv 3 0 None dirtyPendingWorld
        = Throws (ErrorObject ''render failed again'')
            (commitRestore 0 (commitFrame 0 None 1 dirtyPendingWorld)
               (commitRestore 0
                  (commitFrame 0 (Some (editorState (ed dirtyPendingWorld 0))) 1 (markRecovery 0 w4))
                  w7)))
   \<and> thrownValue (commitPendingUpdates failAlwaysEnv 3 0 None dirtyPendingWorld)
       = Some (ErrorObject ''render failed again'')"
proof -
  have s3: "Suc 2 = 3" by simp
  have s2: "Suc (Suc 1) = 3" by simp
  have "\<exists>u2 u3 u4 u6 u7.
       reconcileRoot failAlwaysEnv (editorState (ed dirtyPendingWorld 0)) 1 0
         (dirtyType (ed dirtyPendingWorld 0)) (dirtyElements (ed dirtyPendingWorld 0))
         (dirtyLeaves (ed dirtyPendingWorld 0)) (commitInstall 0 1 (commitSwap 0 1 dirtyPendingWorld))
       = Throws (ErrorObject ''render failed'') u2
     \<and> reportError failAlwaysEnv 0 (ErrorObject ''render failed'') u2 = Normal () u3
     \<and> \<not> isAttemptingToRecoverFromReconcilerError u3
     \<and> initMutationObserver failAlwaysEnv 0
          (resetEditor failAlwaysEnv 0 None (rootElement (ed dirtyPendingWorld 0)) 1 u3) = Normal () u4
     \<and> pendingEditorState (ed u4 0) = Some 1
     \<and> \<not> headless (ed u4 0) \<and> rootElement (ed u4 0) \<noteq> None \<and> observer (ed u4 0) \<noteq> None
     \<and> reconcileRoot failAlwaysEnv (editorState (ed u4 0)) 1 0 FULL_RECONCILE (dirtyElements (ed u4 0))
          (dirtyLeaves (ed u4 0)) (commitInstall 0 1 (commitSwap 0 1 (markRecovery 0 u4)))
         = Throws (ErrorObject ''render failed again'') u6
     \<and> reportError failAlwaysEnv 0 (ErrorObject ''render failed again'') u6 = Normal () u7
     \<and> isAttemptingToRecoverFromReconcilerError u7"
    by (simp add: example_defs commit_defs state_defs)
  then obtain u2 u3 u4 u6 u7 where c:
    "reconcileRoot failAlwaysEnv (editorState (ed dirtyPendingWorld 0)) 1 0
         (dirtyType (ed dirtyPendingWorld 0)) (dirtyElements (ed dirtyPendingWorld 0))
         (dirtyLeaves (ed dirtyPendingWorld 0)) (commitInstall 0 1 (commitSwap 0 1 dirtyPendingWorld))
       = Throws (ErrorObject ''render failed'') u2"
    "reportError failAlwaysEnv 0 (ErrorObject ''render failed'') u2 = Normal () u3"
    "\<not> isAttemptingToRecoverFromReconcilerError u3
     \<and> initMutationObserver failAlwaysEnv 0
          (resetEditor failAlwaysEnv 0 None (rootElement (ed dirtyPendingWorld 0)) 1 u3) = Normal () u4
     \<and> pendingEditorState (ed u4 0) = Some 1
     \<and> \<not> headless (ed u4 0) \<and> rootElement (ed u4 0) \<noteq> None \<and> observer (ed u4 0) \<noteq> None
     \<and> reconcileRoot failAlwaysEnv (editorState (ed u4 0)) 1 0 FULL_RECONCILE (dirtyElements (ed u4 0))
          (dirtyLeaves (ed u4 0)) (commitInstall 0 1 (commitSwap 0 1 (markRecovery 0 u4)))
         = Throws (ErrorObject ''render failed again'') u6
     \<and> reportError failAlwaysEnv 0 (ErrorObject ''render failed again'') u6 = Normal () u7
     \<and> isAttemptingToRecoverFromReconcilerError u7" by blast
  have t: "thrownValue (commitPendingUpdates failAlwaysEnv 3 0 None dirtyPendingWorld)
       = Some (ErrorObject ''render failed again'')"
    by (simp add: three two example_defs commit_defs state_defs Let_def)
  have facts: "pendingEditorState (ed dirtyPendingWorld 0) = Some 1"
    "\<not> headless (ed dirtyPendingWorld 0)" "rootElement (ed dirtyPendingWorld 0) \<noteq> None"
    "dirtyType (ed dirtyPendingWorld 0) \<noteq> NO_DIRTY_NODES" "observer (ed dirtyPendingWorld 0) \<noteq> None"
    by (simp_all add: example_defs ed_def)
  have "\<exists>w2 w3. reconcileRoot failOnceEnv (editorState (ed dirtyPendingWorld 0)) 1 0
         (dirtyType (ed dirtyPendingWorld 0)) (dirtyElements (ed dirtyPendingWorld 0))
         (dirtyLeaves (ed dirtyPendingWorld 0)) (commitInstall 0 1 (commitSwap 0 1 dirtyPendingWorld))
       = Throws (ErrorObject ''render failed'') w2
     \<and> reportError failOnceEnv 0 (ErrorObject ''render failed'') w2 = Normal () w3
     \<and> \<not> isAttemptingToRecoverFromReconcilerError w3"
    by (simp add: example_defs commit_defs state_defs)
  then obtain w2 w3 where a:
    "reconcileRoot failOnceEnv (editorState (ed dirtyPendingWorld 0)) 1 0
         (dirtyType (ed dirtyPendingWorld 0)) (dirtyElements (ed dirtyPendingWorld 0))
         (dirtyLeaves (ed dirtyPendingWorld 0)) (commitInstall 0 1 (commitSwap 0 1 dirtyPendingWorld))
       = Throws (ErrorObject ''render failed'') w2"
    "reportError failOnceEnv 0 (ErrorObject ''render failed'') w2 = Normal () w3"
    "\<not> isAttemptingToRecoverFromReconcilerError w3" by blast
  have r: "returned (commitPendingUpdates failOnceEnv 3 0 None dirtyPendingWorld)"
    by (simp add: three two example_defs commit_defs state_defs Let_def)
  have facts': "pendingEditorState (ed (dirtyPendingWorld\<lparr>isAttemptingToRecoverFromReconcilerError := True\<rparr>) 0) = Some 1"
    "\<not> headless (ed (dirtyPendingWorld\<lparr>isAttemptingToRecoverFromReconcilerError := True\<rparr>) 0)"
    "rootElement (ed (dirtyPendingWorld\<lparr>isAttemptingToRecoverFromReconcilerError := True\<rparr>) 0) \<noteq> None"
    "dirtyType (ed (dirtyPendingWorld\<lparr>isAttemptingToRecoverFromReconcilerError := True\<rparr>) 0) \<noteq> NO_DIRTY_NODES"
    "observer (ed (dirtyPendingWorld\<lparr>isAttemptingToRecoverFromReconcilerError := True\<rparr>) 0) \<noteq> None"
    by (simp_all add: example_defs ed_def)
  have "\<exists>v2 v3. reconcileRoot failOnceEnv
         (editorState (ed (dirtyPendingWorld\<lparr>isAttemptingToRecoverFromReconcilerError := True\<rparr>) 0)) 1 0
         (dirtyType (ed (dirtyPendingWorld\<lparr>isAttemptingToRecoverFromReconcilerError := True\<rparr>) 0))
         (dirtyElements (ed (dirtyPendingWorld\<lparr>isAttemptingToRecoverFromReconcilerError := True\<rparr>) 0))
         (dirtyLeaves (ed (dirtyPendingWorld\<lparr>isAttemptingToRecoverFromReconcilerError := True\<rparr>) 0))
         (commitInstall 0 1 (commitSwap 0 1
            (dirtyPendingWorld\<lparr>isAttemptingToRecoverFromReconcilerError := True\<rparr>)))
       = Throws (ErrorObject ''render failed'') v2
     \<and> reportError failOnceEnv 0 (ErrorObject ''render failed'') v2 = Normal () v3
     \<and> isAttemptingToRecoverFromReconcilerError v3"
    by (simp add: example_defs commit_defs state_defs)
  then obtain v2 v3 where b:
    "reconcileRoot failOnceEnv
         (editorState (ed (dirtyPendingWorld\<lparr>isAttemptingToRecoverFromReconcilerError := True\<rparr>) 0)) 1 0
         (dirtyType (ed (dirtyPendingWorld\<lparr>isAttemptingToRecoverFromReconcilerError := True\<rparr>) 0))
         (dirtyElements (ed (dirtyPendingWorld\<lparr>isAttemptingToRecoverFromReconcilerError := True\<rparr>) 0))
         (dirtyLeaves (ed (dirtyPendingWorld\<lparr>isAttemptingToRecoverFromReconcilerError := True\<rparr>) 0))
         (commitInstall 0 1 (commitSwap 0 1
            (dirtyPendingWorld\<lparr>isAttemptingToRecoverFromReconcilerError := True\<rparr>)))
       = Throws (ErrorObject ''render failed'') v2"
    "reportError failOnceEnv 0 (ErrorObject ''render failed'') v2 = Normal () v3"
    "isAttemptingToRecoverFromReconcilerError v3" by blast
  from renderer_failure_recovery
    [OF facts c(1) c(2), where m = 1 and recoveryEditorState = None and ?w4.0 = u4
       and ?error2.0 = "ErrorObject ''render failed again''" and ?w6.0 = u6 and ?w7.0 = u7] c(3)
  have again: "\<exists>w4 w7. commitPendingUpdates failAlwaysEnv 3 0 None dirtyPendingWorld
        = Throws (ErrorObject ''render failed again'')
            (commitRestore 0 (commitFrame 0 None 1 dirtyPendingWorld)
               (commitRestore 0
                  (commitFrame 0 (Some (editorState (ed dirtyPendingWorld 0))) 1 (markRecovery 0 w4))
                  w7))"
    unfolding s2 by blast
  from renderer_failure_recovery [OF facts a(1) a(2), where n = 2 and recoveryEditorState = None] a(3)
    renderer_failure_recovery [OF facts' b(1) b(2), where n = 2 and recoveryEditorState = None] b(3) r t
    again
  show ?thesis unfolding s3 by blast
qed

text \<open>
  The claim as stated fails in what it says of the report. A renderer that throws a value
  that is no \<^verbatim>\<open>Error\<close> is recovered from without a report: with a sink that throws whenever it
  is called, the commit returns. And when the sink throws on the renderer's \<^verbatim>\<open>Error\<close>, that
  throw leaves the commit: the editor is not reset and the dirty type is not the
  full-reconcile marker.
\<close>

theorem renderer_failure_not_always_reported:
  "returned (commitPendingUpdates failOnceValueEnv 3 0 None dirtyPendingWorld)
   \<and> thrownValue (commitPendingUpdates failOnceStrictSinkEnv 3 0 None dirtyPendingWorld)
       = Some (ErrorObject ''the sink was called'')
   \<and> map_option (\<lambda>w. (editorState (ed w 0), pendingEditorState (ed w 0), dirtyType (ed w 0)))
        (finalWorld (commitPendingUpdates failOnceStrictSinkEnv 3 0 None dirtyPendingWorld))
       = Some (1, None, HAS_DIRTY_NODES)"
  by (simp add: three two example_defs commit_defs state_defs Let_def)

section \<open>A commit without dirty nodes\<close>

lemma runListeners_renderer [simp]:
  "runListeners (E\<lparr>reconcileRoot := renderer\<rparr>) ls payload = runListeners E ls payload"
proof (induction ls)
  case Nil
  show ?case by (rule ext) simp
next
  case (Cons l ls)
  show ?case by (rule ext) (simp add: Cons)
qed

lemma runCallbacks_renderer [simp]:
  "runCallbacks (E\<lparr>reconcileRoot := renderer\<rparr>) fs = runCallbacks E fs"
proof (induction fs)
  case Nil
  show ?case by (rule ext) simp
next
  case (Cons f fs)
  show ?case by (rule ext) (simp add: Cons)
qed

lemma mutationListenerKlasses_renderer [simp]:
  "mutationListenerKlasses (E\<lparr>reconcileRoot := renderer\<rparr>) l ks m dl prev tags
   = mutationListenerKlasses E l ks m dl prev tags"
proof (induction ks)
  case Nil
  show ?case by (rule ext) simp
next
  case (Cons k ks)
  show ?case by (rule ext) (simp add: Cons cong: option.case_cong)
qed

lemma mutationListenersLoop_renderer [simp]:
  "mutationListenersLoop (E\<lparr>reconcileRoot := renderer\<rparr>) ls m dl prev tags
   = mutationListenersLoop E ls m dl prev tags"
proof (induction ls)
  case Nil
  show ?case by (rule ext) simp
next
  case (Cons l ls)
  show ?case by (rule ext) (simp add: Cons)
qed

lemma commitNotify_renderer:
  "commitNotify (E\<lparr>reconcileRoot := renderer\<rparr>) dispatch beginUpdate' e F m w
   = commitNotify E dispatch beginUpdate' e F m w"
  by (simp add: commitNotify_def commitBeforeUpdateListeners_def commitDOMSelection_def
      triggerListeners_def triggerTextContentListeners_def triggerMutationListeners_def
      triggerDeferredUpdateCallbacks_def cong: option.case_cong if_cong)

text \<open>
  Claim C8, as amended. A commit whose dirty type is the no-dirty-nodes marker does not call
  the renderer (its result is the same for every renderer); it still runs the rest of the
  pipeline on the published, read-only state, and once the steps before them have returned
  the update listeners are triggered, the first registered listener first, with the objects
  that the commit has bound; the deferred callbacks and the next queued update follow.
\<close>

theorem commit_without_dirty_nodes:
  assumes pending: "pendingEditorState (ed w e) = Some p"
    and clean: "dirtyType (ed w e) = NO_DIRTY_NODES"
  shows
    "commitPendingUpdatesBody (E\<lparr>reconcileRoot := renderer\<rparr>) commit dispatch beginUpdate' e
        recoveryEditorState w
       = commitPendingUpdatesBody E commit dispatch beginUpdate' e recoveryEditorState w
     \<and> commitPendingUpdates E (Suc n) e recoveryEditorState w
       = commitNotify E (triggerCommandListeners E n) (beginUpdate E n) e
           (commitFrame e recoveryEditorState p w) None (commitFreeze p (commitSwap e p w))
     \<and> (commitBeforeUpdateListeners E dispatch e F None w1 = Normal () w8
        \<longrightarrow> commitNotify E dispatch beginUpdate' e F None w1
            = andThen
                (triggerListeners E updateListeners e True (updatePayload e F None w1 w8) w8)
                (\<lambda>_ w9.
                   andThen (triggerDeferredUpdateCallbacks E e (deferredObj (ed w1 e)) w9)
                     (\<lambda>_ w10. triggerEnqueuedUpdates beginUpdate' e w10)))
     \<and> (updateListeners (ed w8 e) = l # ls
        \<longrightarrow> triggerListeners E updateListeners e True payload w8
            = tryFinally
                (andThen (runListener E l payload (setEd e (\<lambda>x. x\<lparr>updating := True\<rparr>) w8))
                   (\<lambda>_ w'. runListeners E ls payload w'))
                (setEd e (\<lambda>x. x\<lparr>updating := updating (ed w8 e)\<rparr>)))"
proof -
  have a: "commitPendingUpdatesBody (E\<lparr>reconcileRoot := renderer\<rparr>) commit dispatch beginUpdate' e
        recoveryEditorState w
       = commitPendingUpdatesBody E commit dispatch beginUpdate' e recoveryEditorState w"
    using pending clean
    by (simp add: commitPendingUpdatesBody_def Let_def commitFrame_def commitFinish_def
        commitNotify_renderer)
  have b: "commitPendingUpdates E (Suc n) e recoveryEditorState w
       = commitNotify E (triggerCommandListeners E n) (beginUpdate E n) e
           (commitFrame e recoveryEditorState p w) None (commitFreeze p (commitSwap e p w))"
    using pending clean
    by (simp add: commitPendingUpdatesBody_def Let_def commitFrame_def commitFinish_def)
  have c: "commitBeforeUpdateListeners E dispatch e F None w1 = Normal () w8
        \<longrightarrow> commitNotify E dispatch beginUpdate' e F None w1
            = andThen
                (triggerListeners E updateListeners e True (updatePayload e F None w1 w8) w8)
                (\<lambda>_ w9.
                   andThen (triggerDeferredUpdateCallbacks E e (deferredObj (ed w1 e)) w9)
                     (\<lambda>_ w10. triggerEnqueuedUpdates beginUpdate' e w10))"
    by (simp add: commitNotify_def andThen_def)
  have d: "updateListeners (ed w8 e) = l # ls
        \<longrightarrow> triggerListeners E updateListeners e True payload w8
            = tryFinally
                (andThen (runListener E l payload (setEd e (\<lambda>x. x\<lparr>updating := True\<rparr>) w8))
                   (\<lambda>_ w'. runListeners E ls payload w'))
                (setEd e (\<lambda>x. x\<lparr>updating := updating (ed w8 e)\<rparr>))"
    by (simp add: triggerListeners_def)
  from a b c d show ?thesis by blast
qed

text \<open>A commit of a pending state without dirty nodes.\<close>

theorem commit_without_dirty_nodes_witness:
  "pendingEditorState (ed cleanPendingWorld 0) = Some 1
   \<and> dirtyType (ed cleanPendingWorld 0) = NO_DIRTY_NODES
   \<and> commitPendingUpdates quietEnv 3 0 None cleanPendingWorld
       = commitNotify quietEnv (triggerCommandListeners quietEnv 2) (beginUpdate quietEnv 2) 0
           (commitFrame 0 None 1 cleanPendingWorld) None
           (commitFreeze 1 (commitSwap 0 1 cleanPendingWorld))
   \<and> (\<exists>w8. commitNotify quietEnv (triggerCommandListeners quietEnv 2) (beginUpdate quietEnv 2) 0
              (commitFrame 0 None 1 cleanPendingWorld) None
              (commitFreeze 1 (commitSwap 0 1 cleanPendingWorld))
          = andThen
              (triggerListeners quietEnv updateListeners 0 True
                 (updatePayload 0 (commitFrame 0 None 1 cleanPendingWorld) None
                    (commitFreeze 1 (commitSwap 0 1 cleanPendingWorld)) w8) w8)
              (\<lambda>_ w9.
                 andThen
                   (triggerDeferredUpdateCallbacks quietEnv 0
                      (deferredObj (ed (commitFreeze 1 (commitSwap 0 1 cleanPendingWorld)) 0)) w9)
                   (\<lambda>_ w10. triggerEnqueuedUpdates (beginUpdate quietEnv 2) 0 w10))
        \<and> triggerListeners quietEnv updateListeners 0 True
              (updatePayload 0 (commitFrame 0 None 1 cleanPendingWorld) None
                 (commitFreeze 1 (commitSwap 0 1 cleanPendingWorld)) w8) w8
          = tryFinally
              (andThen
                 (runListener quietEnv 5
                    (updatePayload 0 (commitFrame 0 None 1 cleanPendingWorld) None
                       (commitFreeze 1 (commitSwap 0 1 cleanPendingWorld)) w8)
                    (setEd 0 (\<lambda>x. x\<lparr>updating := True\<rparr>) w8))
                 (\<lambda>_ w'. runListeners quietEnv []
                    (updatePayload 0 (commitFrame 0 None 1 cleanPendingWorld) None
                       (commitFreeze 1 (commitSwap 0 1 cleanPendingWorld)) w8) w'))
              (setEd 0 (\<lambda>x. x\<lparr>updating := updating (ed w8 0)\<rparr>)))
   \<and> returned (commitPendingUpdates quietEnv 3 0 None cleanPendingWorld)"
proof -
  have p: "pendingEditorState (ed cleanPendingWorld 0) = Some 1"
    by (simp add: example_defs ed_def)
  have c: "dirtyType (ed cleanPendingWorld 0) = NO_DIRTY_NODES"
    by (simp add: example_defs ed_def)
  have r: "returned (commitPendingUpdates quietEnv 3 0 None cleanPendingWorld)"
    by (simp add: three two example_defs commit_defs state_defs Let_def)
  have s3: "Suc 2 = 3" by simp
  have "\<exists>w8. commitBeforeUpdateListeners quietEnv (triggerCommandListeners quietEnv 2) 0
            (commitFrame 0 None 1 cleanPendingWorld) None
            (commitFreeze 1 (commitSwap 0 1 cleanPendingWorld)) = Normal () w8
          \<and> updateListeners (ed w8 0) = [5]"
    by (simp add: two example_defs commit_defs state_defs Let_def)
  then obtain w8 where b:
    "commitBeforeUpdateListeners quietEnv (triggerCommandListeners quietEnv 2) 0
            (commitFrame 0 None 1 cleanPendingWorld) None
            (commitFreeze 1 (commitSwap 0 1 cleanPendingWorld)) = Normal () w8"
    "updateListeners (ed w8 0) = [5]" by blast
  from commit_without_dirty_nodes [OF p c, where E = quietEnv and n = 2 and recoveryEditorState = None]
  have first: "commitPendingUpdates quietEnv (Suc 2) 0 None cleanPendingWorld
       = commitNotify quietEnv (triggerCommandListeners quietEnv 2) (beginUpdate quietEnv 2) 0
           (commitFrame 0 None 1 cleanPendingWorld) None
           (commitFreeze 1 (commitSwap 0 1 cleanPendingWorld))"
    by blast
  from commit_without_dirty_nodes
    [OF p c, where E = quietEnv and dispatch = "triggerCommandListeners quietEnv 2"
       and beginUpdate' = "beginUpdate quietEnv 2"
       and F = "commitFrame 0 None 1 cleanPendingWorld"
       and ?w1.0 = "commitFreeze 1 (commitSwap 0 1 cleanPendingWorld)" and ?w8.0 = w8
       and l = 5 and ls = "[]"
       and payload = "updatePayload 0 (commitFrame 0 None 1 cleanPendingWorld) None
                 (commitFreeze 1 (commitSwap 0 1 cleanPendingWorld)) w8"] b
  have second: "commitNotify quietEnv (triggerCommandListeners quietEnv 2) (beginUpdate quietEnv 2) 0
              (commitFrame 0 None 1 cleanPendingWorld) None
              (commitFreeze 1 (commitSwap 0 1 cleanPendingWorld))
          = andThen
              (triggerListeners quietEnv updateListeners 0 True
                 (updatePayload 0 (commitFrame 0 None 1 cleanPendingWorld) None
                    (commitFreeze 1 (commitSwap 0 1 cleanPendingWorld)) w8) w8)
              (\<lambda>_ w9.
                 andThen
                   (triggerDeferredUpdateCallbacks quietEnv 0
                      (deferredObj (ed (commitFreeze 1 (commitSwap 0 1 cleanPendingWorld)) 0)) w9)
                   (\<lambda>_ w10. triggerEnqueuedUpdates (beginUpdate quietEnv 2) 0 w10))
        \<and> triggerListeners quietEnv updateListeners 0 True
              (updatePayload 0 (commitFrame 0 None 1 cleanPendingWorld) None
                 (commitFreeze 1 (commitSwap 0 1 cleanPendingWorld)) w8) w8
          = tryFinally
              (andThen
                 (runListener quietEnv 5
                    (updatePayload 0 (commitFrame 0 None 1 cleanPendingWorld) None
                       (commitFreeze 1 (commitSwap 0 1 cleanPendingWorld)) w8)
                    (setEd 0 (\<lambda>x. x\<lparr>updating := True\<rparr>) w8))
                 (\<lambda>_ w'. runListeners quietEnv []
                    (updatePayload 0 (commitFrame 0 None 1 cleanPendingWorld) None
                       (commitFreeze 1 (commitSwap 0 1 cleanPendingWorld)) w8) w'))
              (setEd 0 (\<lambda>x. x\<lparr>updating := updating (ed w8 0)\<rparr>))"
    by blast
  from p c r first second show ?thesis unfolding s3 by blast
qed

text \<open>
  The claim as stated fails: the update listener is called by a commit without dirty nodes,
  and by the synchronous commit of an update that dirtied nothing but asked for a callback.
\<close>

theorem update_listeners_fire_without_dirty_nodes:
  "dirtyType (ed cleanPendingWorld 0) = NO_DIRTY_NODES
   \<and> thrownValue (commitPendingUpdates updateListenerEnv 2 0 None cleanPendingWorld)
       = Some (OtherValue ''update listener fired'')
   \<and> thrownValue (beginUpdate updateListenerEnv 3 0 (UserFn 0) (Some discreteOnUpdate) listeningWorld)
       = Some (OtherValue ''update listener fired'')"
  by (simp add: three two example_defs update_defs commit_defs state_defs Let_def)

section \<open>Queued updates\<close>

lemma drain_leaves_queue_empty:
  "drainQueuedUpdates E n e q skip w = Normal skip' w' \<Longrightarrow> queues w' q = []"
proof (induction n arbitrary: skip w)
  case 0
  then show ?case by simp
next
  case (Suc n)
  show ?case
  proof (cases "queues w q")
    case Nil
    with Suc.prems show ?thesis by (simp add: processNestedUpdatesStep_def)
  next
    case (Cons item rest)
    with Suc.prems obtain s1 w1 where "drainQueuedUpdates E n e q s1 w1 = Normal skip' w'"
      by (auto simp: processNestedUpdatesStep_def andThen_def split: outcome.splits)
    then show ?thesis by (rule Suc.IH)
  qed
qed

text \<open>
  What the code does with queued updates. \<^verbatim>\<open>updateEditor\<close> pushes the pair at the back of the
  array in the editor's field and returns when the editor is updating, and begins an update
  cycle otherwise. \<^verbatim>\<open>$processNestedUpdates\<close> binds the array that is in the editor's field when
  it is entered (line 847) and drains that array: it returns at once when the array is
  empty; otherwise it takes the front item off, handles its options, runs it, and goes on
  with the array as it then is; when it returns, that array is empty. In a cycle this drain
  comes first after the update function, before the transforms, and so before the commit.
\<close>

theorem queued_updates_are_drained_in_order:
  "(updating (ed w e) \<longrightarrow>
      updateEditor E n e updateFn options w
      = Normal () (setQueue (updates (ed w e))
                     (queues w (updates (ed w e)) @ [(updateFn, options)]) w))
   \<and> (\<not> updating (ed w e) \<longrightarrow>
      updateEditor E n e updateFn options w
      = andThen (beginUpdate E n e (UserFn updateFn) options w) (\<lambda>_ w'. Normal () w'))
   \<and> processNestedUpdates E n e skip w = drainQueuedUpdates E n e (updates (ed w e)) skip w
   \<and> (queues w q = [] \<longrightarrow> drainQueuedUpdates E (Suc n) e q skip w = Normal skip w)
   \<and> (queues w q = item # rest \<longrightarrow>
      drainQueuedUpdates E (Suc n) e q skip w
      = andThen
          (queuedUpdateOptions e (snd item) (pendingEditorState (ed w e)) skip (setQueue q rest w))
          (\<lambda>skip1 w3.
             andThen
               (runQueuedUpdate E (beginUpdate E n) e (fst item) (snd item)
                  (pendingEditorState (ed w e)) w3)
               (\<lambda>_ w4. drainQueuedUpdates E n e q skip1 w4)))
   \<and> (drainQueuedUpdates E n e q skip w = Normal skip' w' \<longrightarrow> queues w' q = [])
   \<and> beginUpdateConverge E n (processNestedUpdates E n) e F skip k w
      = andThen (processNestedUpdates E n e skip w)
          (\<lambda>skip1 w1. beginUpdateAfterDrain E n (processNestedUpdates E n) e F k skip1 w1)"
proof -
  have a: "updating (ed w e) \<longrightarrow>
      updateEditor E n e updateFn options w
      = Normal () (setQueue (updates (ed w e))
                     (queues w (updates (ed w e)) @ [(updateFn, options)]) w)"
    by (simp add: updateEditor_def)
  have b: "\<not> updating (ed w e) \<longrightarrow>
      updateEditor E n e updateFn options w
      = andThen (beginUpdate E n e (UserFn updateFn) options w) (\<lambda>_ w'. Normal () w')"
    by (simp add: updateEditor_def)
  have c: "processNestedUpdates E n e skip w = drainQueuedUpdates E n e (updates (ed w e)) skip w"
    by (simp add: processNestedUpdates_def)
  have d: "queues w q = [] \<longrightarrow> drainQueuedUpdates E (Suc n) e q skip w = Normal skip w"
    by (simp add: processNestedUpdatesStep_def)
  have f: "queues w q = item # rest \<longrightarrow>
      drainQueuedUpdates E (Suc n) e q skip w
      = andThen
          (queuedUpdateOptions e (snd item) (pendingEditorState (ed w e)) skip (setQueue q rest w))
          (\<lambda>skip1 w3.
             andThen
               (runQueuedUpdate E (beginUpdate E n) e (fst item) (snd item)
                  (pendingEditorState (ed w e)) w3)
               (\<lambda>_ w4. drainQueuedUpdates E n e q skip1 w4))"
    by (simp add: processNestedUpdatesStep_def)
  have g: "drainQueuedUpdates E n e q skip w = Normal skip' w' \<longrightarrow> queues w' q = []"
    using drain_leaves_queue_empty by blast
  have h: "beginUpdateConverge E n (processNestedUpdates E n) e F skip k w
      = andThen (processNestedUpdates E n e skip w)
          (\<lambda>skip1 w1. beginUpdateAfterDrain E n (processNestedUpdates E n) e F k skip1 w1)"
    by (simp add: beginUpdateConverge_def)
  from a b c d f g h show ?thesis by blast
qed

text \<open>Three queued updates, the first of which enqueues a fourth while the queue is
  drained: they run in the order in which they were enqueued.\<close>

theorem queued_updates_are_drained_in_order_witness:
  "updating (ed drainingWorld 0)
   \<and> updateEditor orderEnv 0 0 4 None drainingWorld
      = Normal () (setQueue (updates (ed drainingWorld 0))
                     (queues drainingWorld (updates (ed drainingWorld 0)) @ [(4, None)]) drainingWorld)
   \<and> (\<exists>w'. drainQueuedUpdates orderEnv 5 0 0 False drainingWorld = Normal False w'
          \<and> updateTags (ed w' 0) = [''first'', ''second'', ''third'', ''enqueued while draining'']
          \<and> queues w' 0 = [])"
proof -
  have u: "updating (ed drainingWorld 0)"
    by (simp add: example_defs ed_def)
  have "\<exists>w'. drainQueuedUpdates orderEnv 5 0 0 False drainingWorld = Normal False w'
          \<and> updateTags (ed w' 0) = [''first'', ''second'', ''third'', ''enqueued while draining'']"
    by (simp add: five example_defs update_defs updateEditor_def state_defs Let_def)
  then obtain w' where r: "drainQueuedUpdates orderEnv 5 0 0 False drainingWorld = Normal False w'"
      "updateTags (ed w' 0) = [''first'', ''second'', ''third'', ''enqueued while draining'']"
    by blast
  from queued_updates_are_drained_in_order
    [where E = orderEnv and n = 0 and e = 0 and w = drainingWorld and updateFn = 4 and options = None]
    u
  have p: "updateEditor orderEnv 0 0 4 None drainingWorld
      = Normal () (setQueue (updates (ed drainingWorld 0))
                     (queues drainingWorld (updates (ed drainingWorld 0)) @ [(4, None)]) drainingWorld)"
    by blast
  from queued_updates_are_drained_in_order
    [where E = orderEnv and n = 5 and e = 0 and w = drainingWorld and q = 0 and skip = False
       and skip' = False and w' = w'] r(1)
  have "queues w' 0 = []" by blast
  with u p r show ?thesis by blast
qed

text \<open>
  Claim C6, at an input where the code breaks it. Queued updates are not all drained: an
  update enqueued after the editor's array has been replaced stays queued. Function 0 is
  the update function of a cycle on editor 0; it enqueues function 1. Function 1, run by
  the drain, reads the editor; the commit of that read meets a renderer failure and resets
  the editor, which puts a new array in \<^verbatim>\<open>editor._updates\<close>; function 1 then enqueues function 4,
  which goes on the new array. The drain goes on with the array it bound at line 847, finds
  it empty and returns. The cycle returns with function 4 still queued, no pending state
  and no microtask scheduled, so nothing is left that would run function 4.

  The code's own words are against this: the comment on the loop (lines 850 to 852) says
  that the updates may grow while they are processed and are handled until the array of
  updates is empty, and \<^verbatim>\<open>$triggerEnqueuedUpdates\<close> (line 812) reads the field when it runs.
\<close>

theorem update_enqueued_after_reset_is_not_drained:
  "returned (beginUpdate readThenUpdateEnv 8 0 (UserFn 0) None blankWorld)
   \<and> map_option (\<lambda>w. (queues w (updates (ed w 0)), pendingEditorState (ed w 0), microtasks w))
        (finalWorld (beginUpdate readThenUpdateEnv 8 0 (UserFn 0) None blankWorld))
       = Some ([(4, None)], None, [])"
  by (simp add: eight four example_defs update_defs commit_defs updateEditor_def editorRead_def
      readEditorState_def state_defs Let_def)

section \<open>The dispatch of a command\<close>

lemma dispatchInOrder_append:
  "dispatchInOrder E b t ty pl (vs @ vs') w =
     andThen (dispatchInOrder E b t ty pl vs w)
       (\<lambda>handled w'. if handled then Normal True w' else dispatchInOrder E b t ty pl vs' w')"
proof (induction vs arbitrary: w)
  case Nil
  then show ?case by (simp add: andThen_def)
next
  case (Cons v vs)
  show ?case
    by (cases "commandVisit E b t ty pl v w") (simp_all add: andThen_def Cons)
qed

lemma commandEditorsLoop_visits:
  "commandEditorsLoop E b t ty pl i es w = dispatchInOrder E b t ty pl (map (\<lambda>c. (i, c)) es) w"
proof (induction es arbitrary: w)
  case Nil
  then show ?case by simp
next
  case (Cons c es)
  show ?case
    by (cases "commandVisit E b t ty pl (i, c) w")
       (auto simp: commandVisit_def andThen_def Cons split: option.splits)
qed

lemma commandPrioritiesLoop_visits:
  "commandPrioritiesLoop E b t ty pl is es w
   = dispatchInOrder E b t ty pl (concat (map (\<lambda>i. map (\<lambda>c. (i, c)) es) is)) w"
proof (induction "is" arbitrary: w)
  case Nil
  then show ?case by simp
next
  case (Cons i "is")
  show ?case
    by (simp add: dispatchInOrder_append commandEditorsLoop_visits Cons cong: if_cong)
qed

lemma runCommandListeners_first_handled:
  "runCommandListeners E ls1 pl t w = Normal False w1
   \<Longrightarrow> runCommandListener E l pl t w1 = Normal True w2
   \<Longrightarrow> runCommandListeners E (ls1 @ l # ls2) pl t w = Normal True w2"
proof (induction ls1 arbitrary: w)
  case Nil
  then show ?case by (simp add: andThen_def)
next
  case (Cons a ls1)
  then show ?case
    by (cases "runCommandListener E a pl t w") (auto simp: andThen_def split: if_splits)
qed

lemma runCommandListeners_True_only_if:
  "runCommandListeners E ls pl t w = Normal True w'
   \<Longrightarrow> \<exists>l \<in> set ls. \<exists>w1. runCommandListener E l pl t w1 = Normal True w'"
proof (induction ls arbitrary: w)
  case Nil
  then show ?case by simp
next
  case (Cons a ls)
  then show ?case
    by (cases "runCommandListener E a pl t w") (auto simp: andThen_def split: if_splits)
qed

lemma dispatchInOrder_first_handled:
  "dispatchInOrder E b t ty pl vs1 w = Normal False w1
   \<Longrightarrow> commandVisit E b t ty pl v w1 = Normal True w2
   \<Longrightarrow> dispatchInOrder E b t ty pl (vs1 @ v # vs2) w = Normal True w2"
  by (simp add: dispatchInOrder_append andThen_def)

lemma dispatchInOrder_True_only_if:
  "dispatchInOrder E b t ty pl vs w = Normal True w'
   \<Longrightarrow> \<exists>v \<in> set vs. \<exists>w1. commandVisit E b t ty pl v w1 = Normal True w'"
proof (induction vs arbitrary: w)
  case Nil
  then show ?case by simp
next
  case (Cons a vs)
  then show ?case
    by (cases "commandVisit E b t ty pl a w") (auto simp: andThen_def split: if_splits)
qed

lemma beginUpdateTry_handled:
  "fst (beginUpdateTry E n nested e F updateFn skip w)
   \<Longrightarrow> \<exists>w1 w2. runUpdateFn E updateFn w1 = Normal True w2"
  by (auto simp: beginUpdateTry_def split: outcome.splits)

lemma beginUpdateScope_returnVal:
  "beginUpdateScope E n nested commit e F updateFn skip w = Normal r w'
   \<Longrightarrow> fst r = fst (beginUpdateTry E n nested e F updateFn skip w)"
  by (auto simp: beginUpdateScope_def tryFinally_def andThen_def split: outcome.splits)

lemma beginUpdateBody_handled:
  "beginUpdateBody E n nested commit e updateFn options w = Normal True w'
   \<Longrightarrow> \<exists>w1 w2. runUpdateFn E updateFn w1 = Normal True w2"
  by (auto simp: beginUpdateBody_def Let_def andThen_def
      split: outcome.splits if_splits dest!: beginUpdateScope_returnVal beginUpdateTry_handled)

lemma updateEditorSync_handled:
  "updateEditorSync E (beginUpdate E n) c (CommandFn ls pl t) None w = Normal True w'
   \<Longrightarrow> \<exists>l \<in> set ls. \<exists>w1 w2. runCommandListener E l pl t w1 = Normal True w2"
proof (cases "activeEditor w = Some c")
  case True
  assume "updateEditorSync E (beginUpdate E n) c (CommandFn ls pl t) None w = Normal True w'"
  with True have "runCommandListeners E ls pl t w = Normal True w'"
    by (simp add: updateEditorSync_def)
  then show ?thesis by (blast dest: runCommandListeners_True_only_if)
next
  case False
  assume "updateEditorSync E (beginUpdate E n) c (CommandFn ls pl t) None w = Normal True w'"
  with False have b: "beginUpdate E n c (CommandFn ls pl t) None w = Normal True w'"
    by (simp add: updateEditorSync_def)
  then obtain m where "n = Suc m" by (cases n) auto
  with b obtain w1 w2 where "runUpdateFn E (CommandFn ls pl t) w1 = Normal True w2"
    by (auto dest: beginUpdateBody_handled)
  then have "runCommandListeners E ls pl t w1 = Normal True w2" by simp
  then show ?thesis by (blast dest: runCommandListeners_True_only_if)
qed

lemma getEditorsToPropagate_chain:
  "getEditorsToPropagate n w e = Some es
   \<Longrightarrow> es \<noteq> [] \<and> last es = e \<and> parentEditor (ed w (hd es)) = None
       \<and> (\<forall>i. Suc i < length es \<longrightarrow> parentEditor (ed w (es ! Suc i)) = Some (es ! i))"
proof (induction n arbitrary: e es)
  case 0
  then show ?case by simp
next
  case (Suc n)
  show ?case
  proof (cases "parentEditor (ed w e)")
    case None
    with Suc.prems show ?thesis by auto
  next
    case (Some parent)
    with Suc.prems obtain ps where ps: "getEditorsToPropagate n w parent = Some ps" "es = ps @ [e]"
      by auto
    from Suc.IH [OF ps(1)] have ih: "ps \<noteq> []" "last ps = parent" "parentEditor (ed w (hd ps)) = None"
      "\<forall>i. Suc i < length ps \<longrightarrow> parentEditor (ed w (ps ! Suc i)) = Some (ps ! i)"
      by auto
    have "\<forall>i. Suc i < length es \<longrightarrow> parentEditor (ed w (es ! Suc i)) = Some (es ! i)"
    proof (intro allI impI)
      fix i assume i: "Suc i < length es"
      show "parentEditor (ed w (es ! Suc i)) = Some (es ! i)"
      proof (cases "Suc i < length ps")
        case True
        with ih(4) ps(2) show ?thesis by (simp add: nth_append)
      next
        case False
        with i ps(2) have len: "length ps = Suc i" by simp
        with ih(1,2) have "ps ! i = parent" by (simp add: last_conv_nth)
        with ps(2) len Some show ?thesis
          by (simp add: nth_append)
      qed
    qed
    with ps(2) ih show ?thesis by simp
  qed
qed

text \<open>
  Claim C7. The two loops of \<^verbatim>\<open>triggerCommandListeners\<close> visit the pairs of a priority and an
  editor in the order of the spec: priorities from 4 down to 0 and, at each priority, the
  chain of editors, in which every editor comes right after its parent and the target is
  last. A visit runs the listeners registered there in an \<^verbatim>\<open>updateSync\<close> scope. A listener that
  returns \<open>true\<close> ends its listener set, and a visit that is handled ends the walk with
  \<open>true\<close>, whatever listeners and visits would follow. The dispatch returns \<open>true\<close> only if a
  listener has returned \<open>true\<close>: when none does, a dispatch that returns returns \<open>false\<close>.
\<close>

theorem command_dispatch_order:
  "(getEditorsToPropagate n w e = Some editors' \<longrightarrow>
      dispatchCommand E (Suc n) e type payload w
        = dispatchInOrder E (beginUpdate E n) e type payload (visitOrder editors') w
      \<and> last editors' = e \<and> parentEditor (ed w (hd editors')) = None
      \<and> (\<forall>i. Suc i < length editors' \<longrightarrow>
             parentEditor (ed w (editors' ! Suc i)) = Some (editors' ! i)))
   \<and> visitOrder editors'
       = map (Pair 4) editors' @ map (Pair 3) editors' @ map (Pair 2) editors'
         @ map (Pair 1) editors' @ map (Pair 0) editors'
   \<and> (commands (ed w c) type = Some listenerInPriorityOrder
        \<and> listenerInPriorityOrder i = Some listeners \<longrightarrow>
      commandVisit E b e type payload (i, c) w
        = updateEditorSync E b c (CommandFn listeners payload e) None w)
   \<and> (runCommandListeners E ls1 payload e w = Normal False w1
        \<and> runCommandListener E l payload e w1 = Normal True w2 \<longrightarrow>
      runCommandListeners E (ls1 @ l # ls2) payload e w = Normal True w2)
   \<and> (dispatchInOrder E b e type payload vs1 w = Normal False w1
        \<and> commandVisit E b e type payload v w1 = Normal True w2 \<longrightarrow>
      dispatchInOrder E b e type payload (vs1 @ v # vs2) w = Normal True w2)
   \<and> (dispatchCommand E (Suc n) e type payload w = Normal True w' \<longrightarrow>
      (\<exists>l w1 w2. runCommandListener E l payload e w1 = Normal True w2))
   \<and> ((\<forall>l w1 w2. runCommandListener E l payload e w1 \<noteq> Normal True w2)
        \<and> dispatchCommand E (Suc n) e type payload w = Normal handled w' \<longrightarrow> \<not> handled)"
proof -
  have a: "getEditorsToPropagate n w e = Some editors' \<longrightarrow>
      dispatchCommand E (Suc n) e type payload w
        = dispatchInOrder E (beginUpdate E n) e type payload (visitOrder editors') w
      \<and> last editors' = e \<and> parentEditor (ed w (hd editors')) = None
      \<and> (\<forall>i. Suc i < length editors' \<longrightarrow>
             parentEditor (ed w (editors' ! Suc i)) = Some (editors' ! i))"
    using getEditorsToPropagate_chain [of n w e editors']
    by (simp add: dispatchCommand_def triggerCommandListenersBody_def commandPrioritiesLoop_visits
        visitOrder_def)
  have b: "visitOrder editors'
       = map (Pair 4) editors' @ map (Pair 3) editors' @ map (Pair 2) editors'
         @ map (Pair 1) editors' @ map (Pair 0) editors'"
    by (simp add: visitOrder_def)
  have c: "commands (ed w c) type = Some listenerInPriorityOrder
        \<and> listenerInPriorityOrder i = Some listeners \<longrightarrow>
      commandVisit E b e type payload (i, c) w
        = updateEditorSync E b c (CommandFn listeners payload e) None w"
    by (simp add: commandVisit_def)
  have d: "runCommandListeners E ls1 payload e w = Normal False w1
        \<and> runCommandListener E l payload e w1 = Normal True w2 \<longrightarrow>
      runCommandListeners E (ls1 @ l # ls2) payload e w = Normal True w2"
    using runCommandListeners_first_handled by blast
  have f: "dispatchInOrder E b e type payload vs1 w = Normal False w1
        \<and> commandVisit E b e type payload v w1 = Normal True w2 \<longrightarrow>
      dispatchInOrder E b e type payload (vs1 @ v # vs2) w = Normal True w2"
    using dispatchInOrder_first_handled by blast
  have g: "dispatchCommand E (Suc n) e type payload w = Normal True w' \<longrightarrow>
      (\<exists>l w1 w2. runCommandListener E l payload e w1 = Normal True w2)" for w'
  proof
    assume t: "dispatchCommand E (Suc n) e type payload w = Normal True w'"
    then obtain es where es: "getEditorsToPropagate n w e = Some es"
      by (auto simp: dispatchCommand_def triggerCommandListenersBody_def split: option.splits)
    with t have "dispatchInOrder E (beginUpdate E n) e type payload
        (concat (map (\<lambda>i. map (\<lambda>c. (i, c)) es) [4, 3, 2, 1, 0])) w = Normal True w'"
      by (simp add: dispatchCommand_def triggerCommandListenersBody_def commandPrioritiesLoop_visits)
    then obtain v w1 where "commandVisit E (beginUpdate E n) e type payload v w1 = Normal True w'"
      by (blast dest: dispatchInOrder_True_only_if)
    then obtain ls where "updateEditorSync E (beginUpdate E n) (snd v) (CommandFn ls payload e) None w1
        = Normal True w'"
      by (auto simp: commandVisit_def split: option.splits)
    then show "\<exists>l w1 w2. runCommandListener E l payload e w1 = Normal True w2"
      by (blast dest: updateEditorSync_handled)
  qed
  have h: "(\<forall>l w1 w2. runCommandListener E l payload e w1 \<noteq> Normal True w2)
        \<and> dispatchCommand E (Suc n) e type payload w = Normal handled w' \<longrightarrow> \<not> handled"
    using g [of w'] by (cases handled) auto
  from a b c d f g [of w'] h show ?thesis by blast
qed

text \<open>The listener of the parent editor runs first, then the listener of the target editor
  at the same priority, which handles the command; the listener at priority 0 is not run.\<close>

theorem command_dispatch_order_witness:
  "getEditorsToPropagate 5 nestedEditorsWorld 1 = Some [0, 1]
   \<and> (\<exists>w'. dispatchCommand commandEnv 6 1 ''CMD'' 0 nestedEditorsWorld = Normal True w'
          \<and> normalizedNodes (ed w' 0)
              = [''parent editor, priority 1'', ''target editor, priority 1''])"
proof -
  have chain: "getEditorsToPropagate 5 nestedEditorsWorld 1 = Some [0, 1]"
    by (simp add: five example_defs ed_def)
  have s6: "Suc 5 = 6" by simp
  from command_dispatch_order
    [where n = 5 and w = nestedEditorsWorld and e = 1 and editors' = "[0, 1]" and E = commandEnv
       and type = "''CMD''" and payload = 0] chain
  have eq: "dispatchCommand commandEnv 6 1 ''CMD'' 0 nestedEditorsWorld
      = dispatchInOrder commandEnv (beginUpdate commandEnv 5) 1 ''CMD'' 0 (visitOrder [0, 1])
          nestedEditorsWorld"
    unfolding s6 by blast
  have "\<exists>w'. dispatchInOrder commandEnv (beginUpdate commandEnv 5) 1 ''CMD'' 0 (visitOrder [0, 1])
          nestedEditorsWorld = Normal True w'
        \<and> normalizedNodes (ed w' 0)
              = [''parent editor, priority 1'', ''target editor, priority 1'']"
    by (simp add: five four three two example_defs visitOrder_def commandVisit_def
        updateEditorSync_def update_defs commit_defs state_defs Let_def)
  with chain eq show ?thesis by simp
qed

section \<open>The order of the transform passes\<close>

text \<open>
  The transform engine writes a ghost log: \<open>LeafVisit k\<close> when the transforms of the leaf \<open>k\<close>
  are applied, \<open>ElementPassBegins ls m\<close> when an element pass begins (with \<open>ls\<close> the editor's
  dirty leaves at that moment and \<open>m\<close> the dirty elements in the order of the iteration), and
  \<open>ElementVisit k ls\<close> when the transforms of the element \<open>k\<close> are applied (with \<open>ls\<close> the
  editor's dirty leaves at that moment). \<open>logged P w w'\<close>: the log of \<open>w'\<close> is the log of \<open>w\<close>
  followed by events that satisfy \<open>P\<close>.
\<close>

definition logged :: "(visit list \<Rightarrow> bool) \<Rightarrow> world \<Rightarrow> world \<Rightarrow> bool" where
  "logged P w w' = (\<exists>evs. transformLog w' = transformLog w @ evs \<and> P evs)"

text \<open>\<open>rootIsLast m\<close>: if the root has an entry in \<open>m\<close>, it is the last one, it is marked
  intentionally dirty, and there is no other.\<close>

definition rootIsLast :: "(key \<times> bool) list \<Rightarrow> bool" where
  "rootIsLast m =
     (if map_has m ''root''
      then m \<noteq> [] \<and> last m = (''root'', True) \<and> \<not> map_has (butlast m) ''root''
      else True)"

text \<open>
  \<open>orderly s evs\<close>: the events \<open>evs\<close> are in the order of the passes. \<open>s\<close> is \<open>None\<close> outside
  an element pass, and inside one it is the list of the intentionally dirty keys that the pass
  has still to iterate. An element pass begins when no leaf is dirty, and with the root last;
  the transforms of an element are applied inside an element pass only, to an intentionally
  dirty element of that pass, in the order of the iteration.
\<close>

fun orderly :: "key list option \<Rightarrow> visit list \<Rightarrow> bool" where
  "orderly s [] = True"
| "orderly s (LeafVisit k # evs) = orderly None evs"
| "orderly s (ElementPassBegins ls m # evs) =
     (ls = [] \<and> rootIsLast m \<and> orderly (Some (map fst (filter snd m))) evs)"
| "orderly s (ElementVisit k ls # evs) =
     (case s of
        None \<Rightarrow> False
      | Some ks \<Rightarrow> k \<in> set ks \<and> orderly (Some (tl (dropWhile (\<lambda>x. x \<noteq> k) ks))) evs)"

text \<open>What a leaf pass and an element pass log.\<close>

fun elementVisits :: "visit list \<Rightarrow> key list" where
  "elementVisits [] = []"
| "elementVisits (ElementVisit k ls # evs) = k # elementVisits evs"
| "elementVisits (ev # evs) = elementVisits evs"

definition onlyLeafVisits :: "visit list \<Rightarrow> bool" where
  "onlyLeafVisits evs = (\<forall>ev \<in> set evs. \<exists>k. ev = LeafVisit k)"

definition onlyElementVisits :: "visit list \<Rightarrow> bool" where
  "onlyElementVisits evs = (\<forall>ev \<in> set evs. \<exists>k ls. ev = ElementVisit k ls)"

definition elementPassLog :: "(key \<times> bool) list \<Rightarrow> visit list \<Rightarrow> bool" where
  "elementPassLog m evs =
     (onlyElementVisits evs \<and> subseq (elementVisits evs) (map fst (filter snd m)))"

text \<open>
  An editor with two intentionally dirty paragraphs \<open>a\<close> and \<open>b\<close> and a text node \<open>l\<close>. The
  transform of the paragraphs, applied to \<open>a\<close>, writes to \<open>l\<close>: \<open>l\<close> becomes a dirty leaf, and
  its ancestors \<open>a\<close> and the root become dirty elements (not intentionally).
\<close>

definition paragraphA :: lexical_node where
  "paragraphA = \<lparr>nkey = ''a'', ntype = ''paragraph'', isTextNode = False, isSimpleText = False,
     isUnmergeable = False\<rparr>"

definition paragraphB :: lexical_node where
  "paragraphB = \<lparr>nkey = ''b'', ntype = ''paragraph'', isTextNode = False, isSimpleText = False,
     isUnmergeable = False\<rparr>"

definition textL :: lexical_node where
  "textL = \<lparr>nkey = ''l'', ntype = ''text'', isTextNode = True, isSimpleText = True,
     isUnmergeable = False\<rparr>"

definition transformState :: editor_state where
  "transformState = \<lparr>
     nodeMap = (\<lambda>k. if k = ''root'' then Some rootNode
                     else if k = ''a'' then Some paragraphA
                     else if k = ''b'' then Some paragraphB
                     else if k = ''l'' then Some textL
                     else None),
     selection = None, flushSync = False, readOnly = False\<rparr>"

definition transformWorld :: world where
  "transformWorld = blankWorld\<lparr>
     states := \<lambda>a. transformState,
     editors := \<lambda>e. blankEditor\<lparr>
       nodes := \<lambda>ty. if ty = ''paragraph''
                         then Some \<lparr>klass = ''ParagraphNode'', klassType = ''paragraph'', transforms = [1]\<rparr>
                       else if ty = ''text''
                         then Some \<lparr>klass = ''TextNode'', klassType = ''text'', transforms = []\<rparr>
                       else if ty = ''root''
                         then Some \<lparr>klass = ''RootNode'', klassType = ''root'', transforms = []\<rparr>
                       else None,
       dirtyElements := [(''root'', False), (''a'', True), (''b'', True)]\<rparr>\<rparr>"

definition transformEnv :: env where
  "transformEnv = quietEnv\<lparr>
     runTransform := \<lambda>t node w.
       if nkey node = ''a''
       then Normal () (setEd 0 (\<lambda>x. x\<lparr>
              dirtyLeaves := set_add (dirtyLeaves x) ''l'',
              dirtyElements := map_set (map_set (dirtyElements x) ''a'' False) ''root'' False\<rparr>) w)
       else Normal () w\<rparr>"

lemmas transform_defs = applyAllTransforms_def leafPhase_def elementPhase_def rootLast_def
  map_has_def map_delete_def applyTransforms_def getRegisteredNodeOrThrow_def
  isNodeValidForTransform_def normalizeIfSimpleText_def keepLog_def set_add_def
  paragraphA_def paragraphB_def textL_def transformState_def transformWorld_def transformEnv_def

lemma exitsWith_Normal [simp]: "exitsWith P (Normal x w) = P w"
  by (simp add: exitsWith_def)

lemma exitsWith_Throws [simp]: "exitsWith P (Throws t w) = P w"
  by (simp add: exitsWith_def)

lemma exitsWith_OutOfFuel [simp]: "exitsWith P OutOfFuel"
  by (simp add: exitsWith_def)

lemma exitsWith_mono:
  "exitsWith P r \<Longrightarrow> (\<And>w. P w \<Longrightarrow> Q w) \<Longrightarrow> exitsWith Q r"
  by (cases r) simp_all

lemma exitsWith_bind:
  assumes "exitsWith P r" and "\<And>x w. P w \<Longrightarrow> exitsWith Q (f x w)" and "\<And>w. P w \<Longrightarrow> Q w"
  shows "exitsWith Q (andThen r f)"
  using assms by (cases r) (simp_all add: andThen_def)

lemma keepLog_log: "exitsWith (\<lambda>w'. transformLog w' = transformLog w) (keepLog w r)"
  by (cases r) (simp_all add: keepLog_def tryFinally_def)

lemma runTransforms_log:
  "exitsWith (\<lambda>w'. transformLog w' = transformLog w) (runTransforms E ts node w)"
proof (induction ts arbitrary: w)
  case Nil
  then show ?case by simp
next
  case (Cons t ts)
  show ?case
    unfolding runTransforms.simps
  proof (rule exitsWith_bind [OF keepLog_log])
    fix x and w' :: world assume eq: "transformLog w' = transformLog w"
    show "exitsWith (\<lambda>w'. transformLog w' = transformLog w)
        (if \<not> isAttached E node w' then Normal () w' else runTransforms E ts node w')"
      using Cons [of w'] eq by simp
  qed simp
qed

lemma applyTransforms_log:
  "exitsWith (\<lambda>w'. transformLog w' = transformLog w) (applyTransforms E e node cache w)"
proof (cases "nodes (ed w e) (ntype node)")
  case None
  then show ?thesis
    by (simp add: applyTransforms_def getRegisteredNodeOrThrow_def invariantError_def andThen_def)
next
  case (Some r)
  have "exitsWith (\<lambda>w'. transformLog w' = transformLog w)
      (runTransforms E (case map_of cache (ntype node) of None \<Rightarrow> transforms r | Some arr \<Rightarrow> arr)
         node w)"
    by (rule runTransforms_log)
  with Some show ?thesis
    by (simp add: applyTransforms_def getRegisteredNodeOrThrow_def andThen_def Let_def
        exitsWith_def split: outcome.splits)
qed

lemma normalizeIfSimpleText_log:
  "exitsWith (\<lambda>w'. transformLog w' = transformLog w) (normalizeIfSimpleText E nodeOpt w)"
  using keepLog_log by (auto simp: normalizeIfSimpleText_def split: option.splits)

lemma orderly_weaken: "orderly None evs \<Longrightarrow> orderly s evs"
  by (cases "(s, evs)" rule: orderly.cases) simp_all

lemma orderly_append: "orderly s a \<Longrightarrow> orderly None b \<Longrightarrow> orderly s (a @ b)"
proof (induction s a rule: orderly.induct)
  case (1 s)
  then show ?case by (simp add: orderly_weaken)
next
  case (2 s k evs)
  then show ?case by simp
next
  case (3 s ls m evs)
  then show ?case by simp
next
  case (4 s k ls evs)
  then show ?case by (cases s) simp_all
qed

lemma leafPass_log:
  "exitsWith (logged onlyLeafVisits w) (leafPass E e st ck ks cache accL w)"
proof (induction ks arbitrary: cache accL w)
  case Nil
  then show ?case by (simp add: logged_def onlyLeafVisits_def)
next
  case (Cons k ks)
  have step: "exitsWith (logged onlyLeafVisits w1)
      (case nodeMap (states w st) k of
         None \<Rightarrow> Normal cache w1
       | Some node \<Rightarrow>
           if isNodeValidForTransform E node ck w1
           then applyTransforms E e node cache (w1\<lparr>transformLog := transformLog w1 @ [LeafVisit k]\<rparr>)
           else Normal cache w1)" for w1
  proof (cases "nodeMap (states w st) k")
    case None
    then show ?thesis by (simp add: logged_def onlyLeafVisits_def)
  next
    case (Some node)
    have "exitsWith (\<lambda>w'. transformLog w' = transformLog w1 @ [LeafVisit k])
        (applyTransforms E e node cache (w1\<lparr>transformLog := transformLog w1 @ [LeafVisit k]\<rparr>))"
      using applyTransforms_log [of "w1\<lparr>transformLog := transformLog w1 @ [LeafVisit k]\<rparr>" E e node cache]
      by simp
    then have "exitsWith (logged onlyLeafVisits w1)
        (applyTransforms E e node cache (w1\<lparr>transformLog := transformLog w1 @ [LeafVisit k]\<rparr>))"
      by (rule exitsWith_mono) (simp add: logged_def onlyLeafVisits_def)
    with Some show ?thesis by (simp add: logged_def onlyLeafVisits_def)
  qed
  have app: "\<And>a b. onlyLeafVisits a \<Longrightarrow> onlyLeafVisits b \<Longrightarrow> onlyLeafVisits (a @ b)"
    by (auto simp: onlyLeafVisits_def)
  show ?case
    unfolding leafPass.simps
  proof (rule exitsWith_bind [where P = "\<lambda>w'. transformLog w' = transformLog w"])
    show "exitsWith (\<lambda>w'. transformLog w' = transformLog w)
        (normalizeIfSimpleText E (nodeMap (states w st) k) w)"
      by (rule normalizeIfSimpleText_log)
  next
    fix x and w1 :: world assume eq: "transformLog w1 = transformLog w"
    show "exitsWith (logged onlyLeafVisits w)
        (andThen
          (case nodeMap (states w st) k of
             None \<Rightarrow> Normal cache w1
           | Some node \<Rightarrow>
               if isNodeValidForTransform E node ck w1
               then applyTransforms E e node cache (w1\<lparr>transformLog := transformLog w1 @ [LeafVisit k]\<rparr>)
               else Normal cache w1)
          (\<lambda>cache' w2. leafPass E e st ck ks cache' (set_add accL k) w2))"
    proof (rule exitsWith_bind [where P = "logged onlyLeafVisits w"])
      show "exitsWith (logged onlyLeafVisits w)
          (case nodeMap (states w st) k of
             None \<Rightarrow> Normal cache w1
           | Some node \<Rightarrow>
               if isNodeValidForTransform E node ck w1
               then applyTransforms E e node cache (w1\<lparr>transformLog := transformLog w1 @ [LeafVisit k]\<rparr>)
               else Normal cache w1)"
        by (rule exitsWith_mono [OF step [of w1]]) (simp add: logged_def eq)
    next
      fix cache' and w2 :: world assume l: "logged onlyLeafVisits w w2"
      show "exitsWith (logged onlyLeafVisits w) (leafPass E e st ck ks cache' (set_add accL k) w2)"
      proof (rule exitsWith_mono [OF Cons])
        fix w3 assume "logged onlyLeafVisits w2 w3"
        with l show "logged onlyLeafVisits w w3"
          by (auto simp: logged_def onlyLeafVisits_def)
      qed
    qed simp
  next
    fix w1 :: world assume "transformLog w1 = transformLog w"
    then show "logged onlyLeafVisits w w1" by (simp add: logged_def onlyLeafVisits_def)
  qed
qed

lemma elementPass_log:
  "exitsWith (logged (elementPassLog m) w) (elementPass E e st ck m cache accE w)"
proof (induction m arbitrary: cache accE w)
  case Nil
  then show ?case by (simp add: logged_def elementPassLog_def onlyElementVisits_def)
next
  case (Cons p m)
  show ?case
  proof (cases "snd p")
    case False
    have "exitsWith (logged (elementPassLog m) w)
        (elementPass E e st ck m cache (map_set accE (fst p) (snd p)) w)"
      by (rule Cons)
    then have "exitsWith (logged (elementPassLog (p # m)) w)
        (elementPass E e st ck m cache (map_set accE (fst p) (snd p)) w)"
    proof (rule exitsWith_mono)
      fix w' assume "logged (elementPassLog m) w w'"
      with False show "logged (elementPassLog (p # m)) w w'"
        by (simp add: logged_def elementPassLog_def)
    qed
    with False show ?thesis by (simp add: Let_def)
  next
    case True
    have step: "exitsWith
        (\<lambda>w'. transformLog w' = transformLog w
               \<or> (\<exists>ls. transformLog w' = transformLog w @ [ElementVisit (fst p) ls]))
        (case nodeMap (states w st) (fst p) of
           None \<Rightarrow> Normal cache w
         | Some node \<Rightarrow>
             if isNodeValidForTransform E node ck w
             then applyTransforms E e node cache
                    (w\<lparr>transformLog := transformLog w @ [ElementVisit (fst p) (dirtyLeaves (ed w e))]\<rparr>)
             else Normal cache w)"
    proof (cases "nodeMap (states w st) (fst p)")
      case None
      then show ?thesis by simp
    next
      case (Some node)
      have "exitsWith (\<lambda>w'. transformLog w'
                 = transformLog w @ [ElementVisit (fst p) (dirtyLeaves (ed w e))])
          (applyTransforms E e node cache
             (w\<lparr>transformLog := transformLog w @ [ElementVisit (fst p) (dirtyLeaves (ed w e))]\<rparr>))"
        using applyTransforms_log
          [of "w\<lparr>transformLog := transformLog w @ [ElementVisit (fst p) (dirtyLeaves (ed w e))]\<rparr>"
              E e node cache]
        by simp
      then have "exitsWith
          (\<lambda>w'. transformLog w' = transformLog w
               \<or> (\<exists>ls. transformLog w' = transformLog w @ [ElementVisit (fst p) ls]))
          (applyTransforms E e node cache
             (w\<lparr>transformLog := transformLog w @ [ElementVisit (fst p) (dirtyLeaves (ed w e))]\<rparr>))"
        by (rule exitsWith_mono) blast
      with Some show ?thesis by simp
    qed
    have "exitsWith (logged (elementPassLog (p # m)) w)
        (andThen
          (case nodeMap (states w st) (fst p) of
             None \<Rightarrow> Normal cache w
           | Some node \<Rightarrow>
               if isNodeValidForTransform E node ck w
               then applyTransforms E e node cache
                      (w\<lparr>transformLog := transformLog w @ [ElementVisit (fst p) (dirtyLeaves (ed w e))]\<rparr>)
               else Normal cache w)
          (\<lambda>cache' w'. elementPass E e st ck m cache' (map_set accE (fst p) (snd p)) w'))"
    proof (rule exitsWith_bind [OF step])
      fix cache' and w1 :: world
      assume s: "transformLog w1 = transformLog w
               \<or> (\<exists>ls. transformLog w1 = transformLog w @ [ElementVisit (fst p) ls])"
      show "exitsWith (logged (elementPassLog (p # m)) w)
          (elementPass E e st ck m cache' (map_set accE (fst p) (snd p)) w1)"
      proof (rule exitsWith_mono [OF Cons])
        fix w2 assume "logged (elementPassLog m) w1 w2"
        with s True show "logged (elementPassLog (p # m)) w w2"
          by (auto simp: logged_def elementPassLog_def onlyElementVisits_def)
      qed
    next
      fix w1 :: world
      assume "transformLog w1 = transformLog w
               \<or> (\<exists>ls. transformLog w1 = transformLog w @ [ElementVisit (fst p) ls])"
      with True show "logged (elementPassLog (p # m)) w w1"
        by (auto simp: logged_def elementPassLog_def onlyElementVisits_def)
    qed
    with True show ?thesis by (simp add: Let_def)
  qed
qed

lemma ed_counter [simp]: "ed (w\<lparr>infiniteTransformCount := c\<rparr>) e = ed w e"
  by (simp add: ed_def)

lemma ed_log [simp]: "ed (w\<lparr>transformLog := l\<rparr>) e = ed w e"
  by (simp add: ed_def)

lemma transformLog_setEd [simp]: "transformLog (setEd e f w) = transformLog w"
  by (simp add: setEd_def)

lemma onlyLeafVisits_orderly: "onlyLeafVisits evs \<Longrightarrow> orderly s evs"
  by (induction evs arbitrary: s) (auto simp: onlyLeafVisits_def)

lemma subseq_Cons_dropWhile:
  "subseq (k # rest) ks \<Longrightarrow> k \<in> set ks \<and> subseq rest (tl (dropWhile (\<lambda>x. x \<noteq> k) ks))"
proof (induction ks)
  case Nil
  then show ?case by simp
next
  case (Cons x xs)
  then show ?case by (cases "x = k") auto
qed

lemma elementPassLog_orderly:
  "onlyElementVisits evs \<Longrightarrow> subseq (elementVisits evs) ks \<Longrightarrow> orderly (Some ks) evs"
proof (induction evs arbitrary: ks)
  case Nil
  then show ?case by simp
next
  case (Cons ev evs)
  from Cons.prems(1) obtain k ls where ev: "ev = ElementVisit k ls"
    by (auto simp: onlyElementVisits_def)
  from Cons.prems(1) have rest: "onlyElementVisits evs"
    by (simp add: onlyElementVisits_def)
  from Cons.prems(2) ev have "subseq (k # elementVisits evs) ks" by simp
  then have "k \<in> set ks" and "subseq (elementVisits evs) (tl (dropWhile (\<lambda>x. x \<noteq> k) ks))"
    by (simp_all add: subseq_Cons_dropWhile)
  with Cons.IH [OF rest] ev show ?case by simp
qed

lemma map_set_absent: "k \<notin> fst ` set m \<Longrightarrow> map_set m k v = m @ [(k, v)]"
  by (induction m) auto

lemma rootLast_present:
  assumes "map_has m ''root''"
  shows "rootLast m = filter (\<lambda>p. fst p \<noteq> ''root'') m @ [(''root'', True)]"
proof -
  have "''root'' \<notin> fst ` set (filter (\<lambda>p. fst p \<noteq> ''root'') m)"
    by auto
  with assms show ?thesis
    by (simp add: rootLast_def map_delete_def map_set_absent)
qed

lemma rootIsLast_rootLast: "rootIsLast (rootLast m)"
proof (cases "map_has m ''root''")
  case True
  then show ?thesis
    by (auto simp: rootLast_present rootIsLast_def map_has_def)
next
  case False
  then show ?thesis by (simp add: rootLast_def rootIsLast_def)
qed

lemma leafPhase_log:
  "case leafPhase E e st ck cache accL w of
     Normal r w' \<Rightarrow> logged (orderly None) w w' \<and> (\<not> snd (snd r) \<longrightarrow> dirtyLeaves (ed w' e) = [])
   | Throws t w' \<Rightarrow> logged (orderly None) w w'
   | OutOfFuel \<Rightarrow> True"
proof (cases "dirtyLeaves (ed w e) = []")
  case True
  then show ?thesis by (simp add: leafPhase_def logged_def)
next
  case False
  have "exitsWith (logged onlyLeafVisits (setEd e (\<lambda>x. x\<lparr>dirtyLeaves := []\<rparr>) w))
      (leafPass E e st ck (dirtyLeaves (ed w e)) cache accL (setEd e (\<lambda>x. x\<lparr>dirtyLeaves := []\<rparr>) w))"
    by (rule leafPass_log)
  then have "exitsWith (logged (orderly None) w)
      (leafPass E e st ck (dirtyLeaves (ed w e)) cache accL (setEd e (\<lambda>x. x\<lparr>dirtyLeaves := []\<rparr>) w))"
    by (rule exitsWith_mono) (auto simp: logged_def dest: onlyLeafVisits_orderly)
  with False show ?thesis
    by (cases "leafPass E e st ck (dirtyLeaves (ed w e)) cache accL
                 (setEd e (\<lambda>x. x\<lparr>dirtyLeaves := []\<rparr>) w)")
       (auto simp: leafPhase_def Let_def andThen_def logged_def)
qed

lemma elementPhase_log:
  assumes "dirtyLeaves (ed w e) = []"
  shows "exitsWith (logged (orderly None) w) (elementPhase E e st ck cache accE w)"
proof -
  let ?m = "rootLast (dirtyElements (ed w e))"
  let ?w1 = "setEd e (\<lambda>x. x\<lparr>dirtyLeaves := [], dirtyElements := []\<rparr>)
                 (w\<lparr>transformLog := transformLog w @ [ElementPassBegins (dirtyLeaves (ed w e)) ?m]\<rparr>)"
  have "exitsWith (logged (elementPassLog ?m) ?w1)
      (elementPass E e st ck ?m cache (case accE of None \<Rightarrow> ?m | Some a \<Rightarrow> a) ?w1)"
    by (rule elementPass_log)
  then have "exitsWith (logged (orderly None) w)
      (elementPass E e st ck ?m cache (case accE of None \<Rightarrow> ?m | Some a \<Rightarrow> a) ?w1)"
  proof (rule exitsWith_mono)
    fix w' assume "logged (elementPassLog ?m) ?w1 w'"
    then obtain evs where evs: "transformLog w' = transformLog ?w1 @ evs" "onlyElementVisits evs"
        "subseq (elementVisits evs) (map fst (filter snd ?m))"
      by (auto simp: logged_def elementPassLog_def)
    have "orderly None ([ElementPassBegins (dirtyLeaves (ed w e)) ?m] @ evs)"
      using assms evs(2,3) by (simp add: rootIsLast_rootLast elementPassLog_orderly)
    with evs(1) show "logged (orderly None) w w'"
      by (auto simp: logged_def)
  qed
  then show ?thesis
    by (cases "elementPass E e st ck ?m cache (case accE of None \<Rightarrow> ?m | Some a \<Rightarrow> a) ?w1")
       (auto simp: elementPhase_def Let_def andThen_def logged_def)
qed

lemma applyAllTransformsLoop_log:
  "exitsWith (logged (orderly None) w) (applyAllTransformsLoop E n e st ck cache accL accE w)"
proof (induction n arbitrary: cache accL accE w)
  case 0
  then show ?case by simp
next
  case (Suc n)
  show ?case
  proof (cases "length (dirtyLeaves (ed w e)) > 0 \<or> length (dirtyElements (ed w e)) > 0")
    case False
    then show ?thesis by (simp add: logged_def)
  next
    case True
    show ?thesis
    proof (cases "leafPhase E e st ck cache accL w")
      case OutOfFuel
      with True show ?thesis by (simp add: andThen_def)
    next
      case (Throws t w1)
      with leafPhase_log [where E = E and e = e and st = st and ck = ck and cache = cache and accL = accL and w = w] True show ?thesis
        by (simp add: andThen_def)
    next
      case (Normal r w1)
      with leafPhase_log [where E = E and e = e and st = st and ck = ck and cache = cache and accL = accL and w = w]
      have l: "logged (orderly None) w w1" and d: "\<not> snd (snd r) \<longrightarrow> dirtyLeaves (ed w1 e) = []"
        by simp_all
      have trans: "\<And>w2. logged (orderly None) w1 w2 \<Longrightarrow> logged (orderly None) w w2"
        using l by (auto simp: logged_def dest: orderly_append)
      show ?thesis
      proof (cases "snd (snd r)")
        case True
        have "exitsWith (logged (orderly None) w)
            (applyAllTransformsLoop E n e st ck (fst r) (fst (snd r)) accE w1)"
          by (rule exitsWith_mono [OF Suc]) (rule trans)
        with True Normal \<open>0 < length (dirtyLeaves (ed w e)) \<or> 0 < length (dirtyElements (ed w e))\<close>
        show ?thesis by (simp add: andThen_def)
      next
        case False
        with d have clean: "dirtyLeaves (ed w1 e) = []" by simp
        have "exitsWith (logged (orderly None) w)
            (andThen (elementPhase E e st ck (fst r) accE w1)
               (\<lambda>r' w2. applyAllTransformsLoop E n e st ck (fst r') (fst (snd r)) (Some (snd r')) w2))"
        proof (rule exitsWith_bind [where P = "logged (orderly None) w"])
          show "exitsWith (logged (orderly None) w) (elementPhase E e st ck (fst r) accE w1)"
            by (rule exitsWith_mono [OF elementPhase_log [OF clean]]) (rule trans)
        next
          fix r' and w2 :: world assume l2: "logged (orderly None) w w2"
          show "exitsWith (logged (orderly None) w)
              (applyAllTransformsLoop E n e st ck (fst r') (fst (snd r)) (Some (snd r')) w2)"
          proof (rule exitsWith_mono [OF Suc])
            fix w3 assume "logged (orderly None) w2 w3"
            with l2 show "logged (orderly None) w w3"
              by (auto simp: logged_def dest: orderly_append)
          qed
        qed simp
        with False Normal \<open>0 < length (dirtyLeaves (ed w e)) \<or> 0 < length (dirtyElements (ed w e))\<close>
        show ?thesis by (simp add: andThen_def)
      qed
    qed
  qed
qed

lemma applyAllTransforms_log:
  "exitsWith (logged (orderly None) w) (applyAllTransforms E n st e w)"
  using applyAllTransformsLoop_log [where w = w and E = E and n = n and e = e and st = st and ck = "getCompositionKey E w" and cache = "[]" and accL = "dirtyLeaves (ed w e)" and accE = None]
  by (cases "applyAllTransformsLoop E n e st (getCompositionKey E w) [] (dirtyLeaves (ed w e)) None w")
     (auto simp: applyAllTransforms_def andThen_def logged_def)

text \<open>
  Claim C4, as amended. In every run of \<^verbatim>\<open>$applyAllTransforms\<close> that returns or throws, the
  events are \<open>orderly\<close>: every element pass begins when the editor has no dirty leaf (the leaf
  pass is repeated until it leaves none), the transforms of an element are applied only
  within an element pass and only to the intentionally dirty elements of that pass, in the
  order of its iteration, and in that order the root, if it has an entry, is last and is
  intentionally dirty. The order of the iteration is that of the dirty-element map with the
  root's entry removed and set again at the end. (A leaf that an element transform makes
  dirty stays unprocessed while the transforms of the remaining elements of that pass are
  applied: see the run below.)
\<close>

theorem transform_passes_order:
  "exitsWith (logged (orderly None) w) (applyAllTransforms E n st e w)
   \<and> rootLast m = (if map_has m ''root''
                   then filter (\<lambda>p. fst p \<noteq> ''root'') m @ [(''root'', True)]
                   else m)"
proof
  show "exitsWith (logged (orderly None) w) (applyAllTransforms E n st e w)"
    by (rule applyAllTransforms_log)
next
  show "rootLast m = (if map_has m ''root''
                   then filter (\<lambda>p. fst p \<noteq> ''root'') m @ [(''root'', True)]
                   else m)"
    by (simp add: rootLast_present) (simp add: rootLast_def)
qed

text \<open>The run of the editor above returns, and its events are orderly.\<close>

theorem transform_passes_order_witness:
  "returned (applyAllTransforms transformEnv 3 0 0 transformWorld)
   \<and> exitsWith (logged (orderly None) transformWorld)
       (applyAllTransforms transformEnv 3 0 0 transformWorld)
   \<and> rootLast [(''root'', False), (''a'', True), (''b'', True)]
       = [(''a'', True), (''b'', True), (''root'', True)]"
proof -
  have a: "returned (applyAllTransforms transformEnv 3 0 0 transformWorld)"
    by (simp add: transform_defs example_defs state_defs three Let_def)
  from transform_passes_order
    [where w = transformWorld and E = transformEnv and n = 3 and st = 0 and e = 0
       and m = "[(''root'', False), (''a'', True), (''b'', True)]"]
  have b: "exitsWith (logged (orderly None) transformWorld)
       (applyAllTransforms transformEnv 3 0 0 transformWorld)"
    and c: "rootLast [(''root'', False), (''a'', True), (''b'', True)]
       = [(''a'', True), (''b'', True), (''root'', True)]"
    by (simp_all add: map_has_def)
  from a b c show ?thesis by simp
qed

text \<open>
  The claim as stated does not hold: in the run of the editor above the transforms of \<open>b\<close>
  and of the root are applied while the leaf \<open>l\<close>, made dirty by the transform of \<open>a\<close>, is
  dirty and has not been processed. It is processed by the leaf pass that follows the element
  pass.
\<close>

theorem element_transform_runs_while_leaf_is_dirty:
  "map_option transformLog (finalWorld (applyAllTransforms transformEnv 3 0 0 transformWorld))
   = Some [ElementPassBegins [] [(''a'', True), (''b'', True), (''root'', True)],
           ElementVisit ''a'' [], ElementVisit ''b'' [''l''], ElementVisit ''root'' [''l''],
           LeafVisit ''l'',
           ElementPassBegins [] [(''a'', False), (''root'', True)],
           ElementVisit ''root'' []]"
  by (simp add: transform_defs example_defs state_defs three Let_def)

section \<open>The ceiling of the transform iterations\<close>

text \<open>
  The loop of \<^verbatim>\<open>$applyAllTransforms\<close> counts its passes in \<^verbatim>\<open>infiniteTransformCount\<close> and
  never reads the counter; \<^verbatim>\<open>errorOnInfiniteTransforms\<close> reads it, and is exported for the code
  that marks nodes dirty. What the loop needs of the transforms and of the normalization of
  text is stated for an editor \<open>e\<close>: \<open>guardKept e w w'\<close> says of a call that went from the world
  \<open>w\<close> to the world \<open>w'\<close> that it has not lowered the counter and that, if the counter had
  exceeded 99, it has left the dirty leaves and the dirty elements of \<open>e\<close> as they were (an
  attempt to mark a node has thrown). \<open>guarded e w r\<close> says it of a call with the outcome \<open>r\<close>,
  which has returned or thrown, and \<open>guardedCollaborators E e\<close> of every transform and of the
  normalization of text.
\<close>

definition guardKept :: "eid \<Rightarrow> world \<Rightarrow> world \<Rightarrow> bool" where
  "guardKept e w w' =
     (infiniteTransformCount w \<le> infiniteTransformCount w'
      \<and> (if 99 < infiniteTransformCount w
         then dirtyLeaves (ed w' e) = dirtyLeaves (ed w e)
              \<and> dirtyElements (ed w' e) = dirtyElements (ed w e)
         else True))"

definition guarded :: "eid \<Rightarrow> world \<Rightarrow> 'a outcome \<Rightarrow> bool" where
  "guarded e w r =
     (case r of Normal x w' \<Rightarrow> guardKept e w w' | Throws t w' \<Rightarrow> True | OutOfFuel \<Rightarrow> False)"

definition guardedCollaborators :: "env \<Rightarrow> eid \<Rightarrow> bool" where
  "guardedCollaborators E e =
     ((\<forall>t node w. guarded e w (runTransform E t node w))
      \<and> (\<forall>node w. guarded e w (normalizeTextNode E node w)))"

text \<open>The passes that the loop can still make.\<close>

definition passesLeft :: "eid \<Rightarrow> world \<Rightarrow> nat" where
  "passesLeft e w =
     (if dirtyLeaves (ed w e) = [] \<and> dirtyElements (ed w e) = [] then 1
      else if 99 < infiniteTransformCount w then 2
      else 102 - infiniteTransformCount w)"

text \<open>
  Modelled from the spec: \<^verbatim>\<open>internalMarkNodeAsDirty\<close> of \<^verbatim>\<open>LexicalUtils\<close> is not among the
  sources. It is the call of the mutation API into the dirty tracker: it checks the ceiling
  of the transform iterations, then marks the leaf dirty and "every ancestor container dirty
  (non-intentionally, i.e. boolean false, unless already true)". The ancestors are given.
\<close>

fun markAncestors :: "(key \<times> bool) list \<Rightarrow> key list \<Rightarrow> (key \<times> bool) list" where
  "markAncestors m [] = m"
| "markAncestors m (a # as) = markAncestors (if map_has m a then m else map_set m a False) as"

definition internalMarkNodeAsDirty :: "eid \<Rightarrow> key list \<Rightarrow> key \<Rightarrow> world \<Rightarrow> unit outcome" where
  "internalMarkNodeAsDirty e ancestors k w =
     andThen (errorOnInfiniteTransforms w)
       (\<lambda>_ w1. Normal ()
          (setEd e (\<lambda>x. x\<lparr>dirtyType := HAS_DIRTY_NODES,
                             dirtyLeaves := set_add (dirtyLeaves x) k,
                             dirtyElements := markAncestors (dirtyElements x) ancestors\<rparr>) w1))"

text \<open>
  An editor with a dirty text node \<open>t\<close>, whose type has one transform, and three transforms
  for it. The first marks its own node dirty whenever it runs. The second does so during the
  first hundred passes (the transform counts its runs: here it reads the count of the passes)
  and then leaves the node as it is. The third marks its own node dirty whenever it runs and
  then updates editor 1, with an update function that does nothing.
\<close>

definition textNode :: lexical_node where
  "textNode = \<lparr>nkey = ''t'', ntype = ''text'', isTextNode = True, isSimpleText = True,
     isUnmergeable = False\<rparr>"

definition textState :: editor_state where
  "textState = \<lparr>
     nodeMap = (\<lambda>k. if k = ''root'' then Some rootNode
                     else if k = ''t'' then Some textNode
                     else None),
     selection = None, flushSync = False, readOnly = False\<rparr>"

definition runawayWorld :: world where
  "runawayWorld = blankWorld\<lparr>
     states := \<lambda>a. textState,
     editors := \<lambda>e. if e = 0
       then blankEditor\<lparr>
         nodes := \<lambda>ty. if ty = ''text''
                           then Some \<lparr>klass = ''TextNode'', klassType = ''text'', transforms = [1]\<rparr>
                         else if ty = ''root''
                           then Some \<lparr>klass = ''RootNode'', klassType = ''root'', transforms = []\<rparr>
                         else None,
         dirtyType := HAS_DIRTY_NODES,
         dirtyLeaves := [''t''],
         dirtyElements := [(''root'', False)]\<rparr>
       else blankEditor\<rparr>"

definition runawayEnv :: env where
  "runawayEnv = quietEnv\<lparr>
     runTransform := \<lambda>t node w. internalMarkNodeAsDirty 0 [''root''] (nkey node) w\<rparr>"

definition settlingEnv :: env where
  "settlingEnv = quietEnv\<lparr>
     runTransform := \<lambda>t node w.
       if infiniteTransformCount w < 100
       then internalMarkNodeAsDirty 0 [''root''] (nkey node) w
       else Normal () w\<rparr>"

definition resettingEnv :: env where
  "resettingEnv = quietEnv\<lparr>
     runTransform := \<lambda>t node w.
       andThen (internalMarkNodeAsDirty 0 [''root''] (nkey node) w)
         (\<lambda>_ w1. updateEditor quietEnv 3 1 0 None w1)\<rparr>"

text \<open>What these runs keep true at every head of the loop.\<close>

definition runawayInv :: "world \<Rightarrow> bool" where
  "runawayInv w =
     (dirtyLeaves (ed w 0) = [''t''] \<and> nodeMap (states w 0) ''t'' = Some textNode
      \<and> nodes (ed w 0) ''text'' = Some \<lparr>klass = ''TextNode'', klassType = ''text'', transforms = [1]\<rparr>)"

definition textCache :: "transforms_cache \<Rightarrow> bool" where
  "textCache cache = (cache = [] \<or> cache = [(''text'', [1])])"

definition settlingInv :: "world \<Rightarrow> bool" where
  "settlingInv w =
     (runawayInv w \<and> dirtyElements (ed w 0) = [(''root'', False)]
      \<and> nodeMap (states w 0) ''root'' = Some rootNode
      \<and> nodes (ed w 0) ''root'' = Some \<lparr>klass = ''RootNode'', klassType = ''root'', transforms = []\<rparr>)"

definition resettingInv :: "world \<Rightarrow> bool" where
  "resettingInv w =
     (runawayInv w \<and> nextAddr w \<noteq> 0 \<and> infiniteTransformCount w \<le> 1
      \<and> \<not> updating (ed w 1) \<and> pendingEditorState (ed w 1) = None
      \<and> dirtyType (ed w 1) = NO_DIRTY_NODES \<and> deferred (ed w 1) = []
      \<and> queues w (updates (ed w 1)) = []
      \<and> \<not> headless (ed w 1) \<and> rootElement (ed w 1) = Some 0)"

lemmas runaway_defs = runawayInv_def leafPhase_def Let_def
      normalizeIfSimpleText_def textNode_def runawayEnv_def quietEnv_def keepLog_def
      tryFinally_def andThen_def isNodeValidForTransform_def applyTransforms_def
      getRegisteredNodeOrThrow_def internalMarkNodeAsDirty_def errorOnInfiniteTransforms_def
      invariantError_def set_add_def map_has_def setEd_def ed_def

lemma guardKept_refl [simp]: "guardKept e w w"
  by (simp add: guardKept_def)

lemma guardKept_trans: "guardKept e w w1 \<Longrightarrow> guardKept e w1 w2 \<Longrightarrow> guardKept e w w2"
  by (auto simp: guardKept_def split: if_splits)

lemma guarded_Normal [simp]: "guarded e w (Normal x w') = guardKept e w w'"
  by (simp add: guarded_def)

lemma guarded_Throws [simp]: "guarded e w (Throws t w')"
  by (simp add: guarded_def)

lemma guarded_OutOfFuel [simp]: "\<not> guarded e w OutOfFuel"
  by (simp add: guarded_def)

lemma guarded_trans: "guardKept e w w1 \<Longrightarrow> guarded e w1 r \<Longrightarrow> guarded e w r"
  by (cases r) (auto intro: guardKept_trans)

lemma guarded_bind:
  assumes "guarded e w r" and "\<And>x w'. guardKept e w w' \<Longrightarrow> guarded e w' (f x w')"
  shows "guarded e w (andThen r f)"
proof (cases r)
  case (Normal x w')
  with assms(1) have k: "guardKept e w w'" by simp
  from guarded_trans [OF k assms(2) [OF k]] Normal show ?thesis
    by (simp add: andThen_def)
next
  case (Throws t w')
  then show ?thesis by (simp add: andThen_def)
next
  case OutOfFuel
  with assms(1) show ?thesis by simp
qed

lemma guardKept_log [simp]:
  "guardKept e w (w'\<lparr>transformLog := l\<rparr>) = guardKept e w w'"
  "guardKept e (w\<lparr>transformLog := l\<rparr>) w' = guardKept e w w'"
  by (simp_all add: guardKept_def)

lemma guarded_log [simp]: "guarded e (w\<lparr>transformLog := l\<rparr>) r = guarded e w r"
  by (cases r) simp_all

lemma guarded_keepLog: "guarded e w r \<Longrightarrow> guarded e w (keepLog w0 r)"
  by (cases r) (simp_all add: keepLog_def tryFinally_def)

lemma runTransforms_guarded:
  assumes "guardedCollaborators E e"
  shows "guarded e w (runTransforms E ts node w)"
proof (induction ts arbitrary: w)
  case Nil
  then show ?case by simp
next
  case (Cons t ts)
  show ?case
    unfolding runTransforms.simps
  proof (rule guarded_bind)
    show "guarded e w (keepLog w (runTransform E t node w))"
      using assms by (simp add: guardedCollaborators_def guarded_keepLog)
  next
    fix x and w' :: world
    show "guarded e w' (if \<not> isAttached E node w' then Normal () w' else runTransforms E ts node w')"
      using Cons [of w'] by simp
  qed
qed

lemma applyTransforms_guarded:
  assumes "guardedCollaborators E e"
  shows "guarded e w (applyTransforms E e' node cache w)"
proof (cases "nodes (ed w e') (ntype node)")
  case None
  then show ?thesis
    by (simp add: applyTransforms_def getRegisteredNodeOrThrow_def invariantError_def andThen_def)
next
  case (Some r)
  have "guarded e w
      (runTransforms E (case map_of cache (ntype node) of None \<Rightarrow> transforms r | Some arr \<Rightarrow> arr)
         node w)"
    by (rule runTransforms_guarded [OF assms])
  with Some show ?thesis
    by (simp add: applyTransforms_def getRegisteredNodeOrThrow_def andThen_def Let_def
        guarded_def split: outcome.splits)
qed

lemma normalizeIfSimpleText_guarded:
  assumes "guardedCollaborators E e"
  shows "guarded e w (normalizeIfSimpleText E nodeOpt w)"
  using assms
  by (auto simp: normalizeIfSimpleText_def guardedCollaborators_def guarded_keepLog
      split: option.splits)

lemma leafPass_guarded:
  assumes "guardedCollaborators E e"
  shows "guarded e w (leafPass E e' st ck ks cache accL w)"
proof (induction ks arbitrary: cache accL w)
  case Nil
  then show ?case by simp
next
  case (Cons k ks)
  show ?case
    unfolding leafPass.simps
  proof (rule guarded_bind [OF normalizeIfSimpleText_guarded [OF assms]])
    fix x and w1 :: world
    show "guarded e w1
        (andThen
          (case nodeMap (states w st) k of
             None \<Rightarrow> Normal cache w1
           | Some node \<Rightarrow>
               if isNodeValidForTransform E node ck w1
               then applyTransforms E e' node cache (w1\<lparr>transformLog := transformLog w1 @ [LeafVisit k]\<rparr>)
               else Normal cache w1)
          (\<lambda>cache' w2. leafPass E e' st ck ks cache' (set_add accL k) w2))"
    proof (rule guarded_bind)
      show "guarded e w1
          (case nodeMap (states w st) k of
             None \<Rightarrow> Normal cache w1
           | Some node \<Rightarrow>
               if isNodeValidForTransform E node ck w1
               then applyTransforms E e' node cache (w1\<lparr>transformLog := transformLog w1 @ [LeafVisit k]\<rparr>)
               else Normal cache w1)"
        using applyTransforms_guarded [OF assms,
            of "w1\<lparr>transformLog := transformLog w1 @ [LeafVisit k]\<rparr>"]
        by (simp split: option.splits)
    next
      fix cache' and w2 :: world
      show "guarded e w2 (leafPass E e' st ck ks cache' (set_add accL k) w2)"
        by (rule Cons)
    qed
  qed
qed

lemma elementPass_guarded:
  assumes "guardedCollaborators E e"
  shows "guarded e w (elementPass E e' st ck m cache accE w)"
proof (induction m arbitrary: cache accE w)
  case Nil
  then show ?case by simp
next
  case (Cons p m)
  show ?case
  proof (cases "snd p")
    case False
    with Cons show ?thesis by (simp add: Let_def)
  next
    case True
    have "guarded e w
        (andThen
          (case nodeMap (states w st) (fst p) of
             None \<Rightarrow> Normal cache w
           | Some node \<Rightarrow>
               if isNodeValidForTransform E node ck w
               then applyTransforms E e' node cache
                      (w\<lparr>transformLog := transformLog w @ [ElementVisit (fst p) (dirtyLeaves (ed w e'))]\<rparr>)
               else Normal cache w)
          (\<lambda>cache' w'. elementPass E e' st ck m cache' (map_set accE (fst p) (snd p)) w'))"
    proof (rule guarded_bind)
      show "guarded e w
          (case nodeMap (states w st) (fst p) of
             None \<Rightarrow> Normal cache w
           | Some node \<Rightarrow>
               if isNodeValidForTransform E node ck w
               then applyTransforms E e' node cache
                      (w\<lparr>transformLog := transformLog w @ [ElementVisit (fst p) (dirtyLeaves (ed w e'))]\<rparr>)
               else Normal cache w)"
        using applyTransforms_guarded [OF assms,
            of "w\<lparr>transformLog := transformLog w @ [ElementVisit (fst p) (dirtyLeaves (ed w e'))]\<rparr>"]
        by (simp split: option.splits)
    next
      fix cache' and w2 :: world
      show "guarded e w2 (elementPass E e' st ck m cache' (map_set accE (fst p) (snd p)) w2)"
        by (rule Cons)
    qed
    with True show ?thesis by (simp add: Let_def)
  qed
qed

lemma ed_setEd_same [simp]: "ed (setEd e f w) e = f (ed w e)"
  by (simp add: ed_def setEd_def)

lemma counter_setEd [simp]: "infiniteTransformCount (setEd e f w) = infiniteTransformCount w"
  by (simp add: setEd_def)

lemma leafPhase_guarded:
  assumes "guardedCollaborators E e"
  shows "case leafPhase E e st ck cache accL w of
     Normal r w' \<Rightarrow>
       if snd (snd r)
       then infiniteTransformCount w < infiniteTransformCount w' \<and> infiniteTransformCount w \<le> 99
       else infiniteTransformCount w \<le> infiniteTransformCount w' \<and> dirtyLeaves (ed w' e) = []
            \<and> (if 99 < infiniteTransformCount w
               then dirtyElements (ed w' e) = dirtyElements (ed w e) else True)
   | Throws t w' \<Rightarrow> True
   | OutOfFuel \<Rightarrow> False"
proof (cases "dirtyLeaves (ed w e) = []")
  case True
  then show ?thesis by (simp add: leafPhase_def)
next
  case False
  let ?w0 = "setEd e (\<lambda>x. x\<lparr>dirtyLeaves := []\<rparr>) w"
  have g: "guarded e ?w0 (leafPass E e st ck (dirtyLeaves (ed w e)) cache accL ?w0)"
    by (rule leafPass_guarded [OF assms])
  show ?thesis
  proof (cases "leafPass E e st ck (dirtyLeaves (ed w e)) cache accL ?w0")
    case (Normal r w1)
    with g have "guardKept e ?w0 w1" by simp
    with False Normal show ?thesis
      by (auto simp: leafPhase_def Let_def andThen_def guardKept_def split: if_splits)
  next
    case (Throws t w1)
    with False show ?thesis by (simp add: leafPhase_def Let_def andThen_def)
  next
    case OutOfFuel
    with g show ?thesis by simp
  qed
qed

lemma elementPhase_guarded:
  assumes "guardedCollaborators E e"
  shows "case elementPhase E e st ck cache accE w of
     Normal r w' \<Rightarrow>
       infiniteTransformCount w < infiniteTransformCount w'
       \<and> (if 99 < infiniteTransformCount w
          then dirtyLeaves (ed w' e) = [] \<and> dirtyElements (ed w' e) = [] else True)
   | Throws t w' \<Rightarrow> True
   | OutOfFuel \<Rightarrow> False"
proof -
  let ?m = "rootLast (dirtyElements (ed w e))"
  let ?w1 = "setEd e (\<lambda>x. x\<lparr>dirtyLeaves := [], dirtyElements := []\<rparr>)
                 (w\<lparr>transformLog := transformLog w @ [ElementPassBegins (dirtyLeaves (ed w e)) ?m]\<rparr>)"
  let ?r = "elementPass E e st ck ?m cache (case accE of None \<Rightarrow> ?m | Some a \<Rightarrow> a) ?w1"
  have g: "guarded e ?w1 ?r"
    by (rule elementPass_guarded [OF assms])
  show ?thesis
  proof (cases ?r)
    case (Normal r w2)
    with g have "guardKept e ?w1 w2" by simp
    with Normal show ?thesis
      by (auto simp: elementPhase_def Let_def andThen_def guardKept_def split: if_splits)
  next
    case (Throws t w2)
    then show ?thesis by (simp add: elementPhase_def Let_def andThen_def)
  next
    case OutOfFuel
    with g show ?thesis by simp
  qed
qed

lemma applyAllTransformsLoop_exits:
  assumes "guardedCollaborators E e"
  shows "passesLeft e w \<le> n \<Longrightarrow> exited (applyAllTransformsLoop E n e st ck cache accL accE w)"
proof (induction n arbitrary: cache accL accE w)
  case 0
  then show ?case by (simp add: passesLeft_def split: if_splits)
next
  case (Suc n)
  show ?case
  proof (cases "dirtyLeaves (ed w e) = [] \<and> dirtyElements (ed w e) = []")
    case True
    then show ?thesis by (simp add: exited_def)
  next
    case False
    then have dirty: "length (dirtyLeaves (ed w e)) > 0 \<or> length (dirtyElements (ed w e)) > 0"
      by simp
    show ?thesis
    proof (cases "leafPhase E e st ck cache accL w")
      case OutOfFuel
      with leafPhase_guarded [OF assms, where st = st and ck = ck and cache = cache and accL = accL and w = w]
      show ?thesis by simp
    next
      case (Throws t w1)
      with dirty show ?thesis by (simp add: andThen_def exited_def)
    next
      case (Normal r w1)
      note l = leafPhase_guarded [OF assms, where st = st and ck = ck and cache = cache and accL = accL and w = w]
      show ?thesis
      proof (cases "snd (snd r)")
        case True
        with l Normal have c: "infiniteTransformCount w < infiniteTransformCount w1"
          "infiniteTransformCount w \<le> 99" by simp_all
        with Suc.prems False have "passesLeft e w1 \<le> n"
          by (auto simp: passesLeft_def split: if_splits)
        from Suc.IH [OF this] True Normal dirty show ?thesis
          by (simp add: andThen_def)
      next
        case rep: False
        with l Normal have c: "infiniteTransformCount w \<le> infiniteTransformCount w1"
          by simp
        show ?thesis
        proof (cases "elementPhase E e st ck (fst r) accE w1")
          case OutOfFuel
          with elementPhase_guarded [OF assms, where st = st and ck = ck and cache = "fst r" and accE = accE and w = w1]
          show ?thesis by simp
        next
          case (Throws t w2)
          with rep Normal dirty show ?thesis by (simp add: andThen_def exited_def)
        next
          case el: (Normal r' w2)
          with elementPhase_guarded [OF assms, where st = st and ck = ck and cache = "fst r" and accE = accE and w = w1]
          have c2: "infiniteTransformCount w1 < infiniteTransformCount w2"
            and d2: "99 < infiniteTransformCount w1 \<Longrightarrow>
                       dirtyLeaves (ed w2 e) = [] \<and> dirtyElements (ed w2 e) = []"
            by simp_all
          from Suc.prems False c c2 d2 have "passesLeft e w2 \<le> n"
            by (auto simp: passesLeft_def split: if_splits)
          from Suc.IH [OF this] rep Normal el dirty show ?thesis
            by (simp add: andThen_def)
        qed
      qed
    qed
  qed
qed

lemma applyAllTransforms_exits:
  assumes "guardedCollaborators E e" and "passesLeft e w \<le> n"
  shows "exited (applyAllTransforms E n st e w)"
  using applyAllTransformsLoop_exits [OF assms, where st = st and ck = "getCompositionKey E w"
      and cache = "[]" and accL = "dirtyLeaves (ed w e)" and accE = None]
  by (cases "applyAllTransformsLoop E n e st (getCompositionKey E w) [] (dirtyLeaves (ed w e)) None w")
     (simp_all add: applyAllTransforms_def andThen_def exited_def)

lemma runaway_guarded: "guardedCollaborators runawayEnv 0"
  by (simp add: guardedCollaborators_def runawayEnv_def quietEnv_def internalMarkNodeAsDirty_def
      errorOnInfiniteTransforms_def invariantError_def andThen_def guardKept_def)

lemma runaway_step:
  assumes "runawayInv w" and "textCache cache"
  shows "case leafPhase runawayEnv 0 0 None cache accL w of
           Normal r w' \<Rightarrow> infiniteTransformCount w \<le> 99 \<and> snd (snd r) \<and> runawayInv w'
                            \<and> textCache (fst r)
                            \<and> infiniteTransformCount w' = Suc (infiniteTransformCount w)
         | Throws t w' \<Rightarrow> 99 < infiniteTransformCount w \<and> t = ErrorObject INFINITE_TRANSFORMS
         | OutOfFuel \<Rightarrow> False"
proof (cases "cache = []")
  case True
  with assms show ?thesis
    by (simp add: runaway_defs textCache_def)
next
  case False
  with assms(2) have "cache = [(''text'', [1])]" by (simp add: textCache_def)
  with assms(1) show ?thesis
    by (simp add: runaway_defs textCache_def)
qed

lemma runaway_loop:
  "runawayInv w \<Longrightarrow> textCache cache \<Longrightarrow> infiniteTransformCount w \<le> 100
   \<Longrightarrow> 101 - infiniteTransformCount w \<le> n
   \<Longrightarrow> thrownValue (applyAllTransformsLoop runawayEnv n 0 0 None cache accL accE w)
       = Some (ErrorObject INFINITE_TRANSFORMS)"
proof (induction n arbitrary: w cache accL)
  case 0
  then show ?case by simp
next
  case (Suc n)
  from Suc.prems(1) have dirty: "0 < length (dirtyLeaves (ed w 0))"
    by (simp add: runawayInv_def)
  note step = runaway_step [OF Suc.prems(1,2), of accL]
  show ?case
  proof (cases "leafPhase runawayEnv 0 0 None cache accL w")
    case OutOfFuel
    with step show ?thesis by simp
  next
    case (Throws t w')
    with step dirty show ?thesis by (simp add: andThen_def thrownValue_def)
  next
    case (Normal r w')
    with step have a: "snd (snd r)" "runawayInv w'" "textCache (fst r)"
      "infiniteTransformCount w' = Suc (infiniteTransformCount w)" "infiniteTransformCount w \<le> 99"
      by simp_all
    from a Suc.prems have "thrownValue (applyAllTransformsLoop runawayEnv n 0 0 None (fst r)
          (fst (snd r)) accE w') = Some (ErrorObject INFINITE_TRANSFORMS)"
      by (intro Suc.IH) simp_all
    with a(1) Normal dirty show ?thesis by (simp add: andThen_def)
  qed
qed

lemma runaway_throws:
  "thrownValue (applyAllTransforms runawayEnv 102 0 0 runawayWorld)
   = Some (ErrorObject INFINITE_TRANSFORMS)"
proof -
  have "thrownValue (applyAllTransformsLoop runawayEnv 102 0 0 None [] (dirtyLeaves (ed runawayWorld 0))
          None runawayWorld) = Some (ErrorObject INFINITE_TRANSFORMS)"
    by (rule runaway_loop)
       (simp_all add: runawayInv_def runawayWorld_def blankWorld_def blankEditor_def ed_def
          textState_def textCache_def)
  then show ?thesis
    by (cases "applyAllTransformsLoop runawayEnv 102 0 0 None [] (dirtyLeaves (ed runawayWorld 0))
          None runawayWorld")
       (simp_all add: applyAllTransforms_def andThen_def thrownValue_def runawayEnv_def quietEnv_def)
qed

lemma settling_step:
  assumes "settlingInv w" and "textCache cache" and "infiniteTransformCount w \<le> 99"
  shows "case leafPhase settlingEnv 0 0 None cache accL w of
           Normal r w' \<Rightarrow> snd (snd r) \<and> settlingInv w' \<and> textCache (fst r)
                            \<and> infiniteTransformCount w' = Suc (infiniteTransformCount w)
         | Throws t w' \<Rightarrow> False
         | OutOfFuel \<Rightarrow> False"
proof (cases "cache = []")
  case True
  with assms show ?thesis
    by (simp add: settlingInv_def runaway_defs textCache_def settlingEnv_def)
next
  case False
  with assms(2) have "cache = [(''text'', [1])]" by (simp add: textCache_def)
  with assms(1,3) show ?thesis
    by (simp add: settlingInv_def runaway_defs textCache_def settlingEnv_def)
qed

lemma settling_last:
  assumes "settlingInv w" and "textCache cache" and "infiniteTransformCount w = 100"
  shows "case applyAllTransformsLoop settlingEnv (Suc (Suc n)) 0 0 None cache accL None w of
           Normal r w' \<Rightarrow> infiniteTransformCount w' = 101
         | Throws t w' \<Rightarrow> False
         | OutOfFuel \<Rightarrow> False"
proof (cases "cache = []")
  case True
  with assms show ?thesis
    by (simp add: settlingInv_def runaway_defs textCache_def settlingEnv_def
        elementPhase_def rootLast_def map_delete_def rootNode_def)
next
  case False
  with assms(2) have "cache = [(''text'', [1])]" by (simp add: textCache_def)
  with assms(1,3) show ?thesis
    by (simp add: settlingInv_def runaway_defs textCache_def settlingEnv_def
        elementPhase_def rootLast_def map_delete_def rootNode_def)
qed

lemma settling_loop:
  "settlingInv w \<Longrightarrow> textCache cache \<Longrightarrow> infiniteTransformCount w \<le> 100
   \<Longrightarrow> 102 - infiniteTransformCount w \<le> n
   \<Longrightarrow> (case applyAllTransformsLoop settlingEnv n 0 0 None cache accL None w of
           Normal r w' \<Rightarrow> infiniteTransformCount w' = 101
         | Throws t w' \<Rightarrow> False
         | OutOfFuel \<Rightarrow> False)"
proof (induction n arbitrary: w cache accL)
  case 0
  then show ?case by simp
next
  case (Suc n)
  show ?case
  proof (cases "infiniteTransformCount w = 100")
    case True
    with Suc.prems(4) obtain n' where n: "n = Suc n'" by (cases n) simp_all
    from settling_last [OF Suc.prems(1,2) True, of n' accL] show ?thesis
      unfolding n .
  next
    case False
    with Suc.prems(3) have le: "infiniteTransformCount w \<le> 99" by simp
    from Suc.prems(1) have dirty: "0 < length (dirtyLeaves (ed w 0))"
      by (simp add: settlingInv_def runawayInv_def)
    note step = settling_step [OF Suc.prems(1,2) le, of accL]
    show ?thesis
    proof (cases "leafPhase settlingEnv 0 0 None cache accL w")
      case OutOfFuel
      with step show ?thesis by simp
    next
      case (Throws t w')
      with step show ?thesis by simp
    next
      case (Normal r w')
      with step have a: "snd (snd r)" "settlingInv w'" "textCache (fst r)"
        "infiniteTransformCount w' = Suc (infiniteTransformCount w)"
        by simp_all
      from a le Suc.prems have
        "case applyAllTransformsLoop settlingEnv n 0 0 None (fst r) (fst (snd r)) None w' of
           Normal r w' \<Rightarrow> infiniteTransformCount w' = 101
         | Throws t w' \<Rightarrow> False
         | OutOfFuel \<Rightarrow> False"
        by (intro Suc.IH) simp_all
      with a(1) Normal dirty show ?thesis by (simp add: andThen_def)
    qed
  qed
qed

lemma settling_returns:
  "returned (applyAllTransforms settlingEnv 102 0 0 runawayWorld)
   \<and> map_option infiniteTransformCount (finalWorld (applyAllTransforms settlingEnv 102 0 0 runawayWorld))
       = Some 101"
proof -
  have "case applyAllTransformsLoop settlingEnv 102 0 0 None [] (dirtyLeaves (ed runawayWorld 0))
          None runawayWorld of
           Normal r w' \<Rightarrow> infiniteTransformCount w' = 101
         | Throws t w' \<Rightarrow> False
         | OutOfFuel \<Rightarrow> False"
    by (rule settling_loop)
       (simp_all add: settlingInv_def runawayInv_def runawayWorld_def blankWorld_def
          blankEditor_def ed_def textState_def textCache_def)
  then show ?thesis
    by (cases "applyAllTransformsLoop settlingEnv 102 0 0 None [] (dirtyLeaves (ed runawayWorld 0))
          None runawayWorld")
       (simp_all add: applyAllTransforms_def andThen_def returned_def finalWorld_def
          settlingEnv_def quietEnv_def setEd_def)
qed

lemma nested_update:
  assumes "resettingInv w"
  shows "\<exists>w'. updateEditor quietEnv 3 1 0 None w = Normal () w' \<and> resettingInv w'
     \<and> infiniteTransformCount w' = 0 \<and> ed w' 0 = ed w 0 \<and> transformLog w' = transformLog w"
  using assms
  by (simp add: resettingInv_def runawayInv_def updateEditor_def three two update_defs state_defs
     quietEnv_def Let_def)


lemma resetting_step:
  assumes "resettingInv w" and "textCache cache"
  shows "case leafPhase resettingEnv 0 0 None cache accL w of
           Normal r w' \<Rightarrow> snd (snd r) \<and> resettingInv w' \<and> textCache (fst r)
         | Throws t w' \<Rightarrow> False
         | OutOfFuel \<Rightarrow> False"
proof (cases "cache = []")
  case True
  with assms show ?thesis
    by (simp add: resettingInv_def runaway_defs textCache_def resettingEnv_def
        updateEditor_def three two update_defs allocState_def setState_def setQueue_def
        tryCatch_def restoreContext_def reportError_def newDeferred_def clearTagsOf_def)
next
  case False
  with assms(2) have "cache = [(''text'', [1])]" by (simp add: textCache_def)
  with assms(1) show ?thesis
    by (simp add: resettingInv_def runaway_defs textCache_def resettingEnv_def
        updateEditor_def three two update_defs allocState_def setState_def setQueue_def
        tryCatch_def restoreContext_def reportError_def newDeferred_def clearTagsOf_def)
qed


lemma resetting_loop:
  "resettingInv w \<Longrightarrow> textCache cache
   \<Longrightarrow> applyAllTransformsLoop resettingEnv n 0 0 None cache accL accE w = OutOfFuel"
proof (induction n arbitrary: w cache accL)
  case 0
  then show ?case by simp
next
  case (Suc n)
  from Suc.prems(1) have dirty: "0 < length (dirtyLeaves (ed w 0))"
    by (simp add: resettingInv_def runawayInv_def)
  note step = resetting_step [OF Suc.prems, of accL]
  show ?case
  proof (cases "leafPhase resettingEnv 0 0 None cache accL w")
    case OutOfFuel
    with step show ?thesis by simp
  next
    case (Throws t w')
    with step show ?thesis by simp
  next
    case (Normal r w')
    with step have a: "snd (snd r)" "resettingInv w'" "textCache (fst r)"
      by simp_all
    from Suc.IH [OF a(2,3)] a(1) Normal dirty show ?thesis by (simp add: andThen_def)
  qed
qed

lemma resetting_never_returns:
  "applyAllTransforms resettingEnv n 0 0 runawayWorld = OutOfFuel"
proof -
  have "applyAllTransformsLoop resettingEnv n 0 0 None [] (dirtyLeaves (ed runawayWorld 0))
          None runawayWorld = OutOfFuel"
    by (rule resetting_loop)
       (simp_all add: resettingInv_def runawayInv_def runawayWorld_def blankWorld_def
          blankEditor_def ed_def textState_def textCache_def)
  then show ?thesis
    by (simp add: applyAllTransforms_def andThen_def resettingEnv_def quietEnv_def)
qed

text \<open>
  Claim C3, as amended. Let every transform and the normalization of text return or throw,
  not lower the counter of the passes, and mark no node of the editor dirty once the counter
  has exceeded 99 (which is what the check in the marking of a node gives). Then
  \<^verbatim>\<open>$applyAllTransforms\<close> returns or throws within 102 passes of a counter at 0 (within
  \<open>102 - c\<close> passes of a counter at \<open>c\<close>, and within two if that is less); every repetition of
  the leaf pass and every element pass increases the counter; \<^verbatim>\<open>errorOnInfiniteTransforms\<close>
  throws its error exactly when the counter exceeds 99; and the \<^verbatim>\<open>finally\<close> block of
  \<^verbatim>\<open>$beginUpdate\<close> leaves the counter at 0.
\<close>

theorem transform_iterations_are_bounded:
  assumes "guardedCollaborators E e"
  shows "(2 \<le> n \<and> 102 \<le> n + infiniteTransformCount w
            \<longrightarrow> exited (applyAllTransforms E n st e w))
   \<and> (case leafPhase E e st ck cache accL w of
         Normal r w' \<Rightarrow>
           if snd (snd r) then infiniteTransformCount w < infiniteTransformCount w' else True
       | Throws t w' \<Rightarrow> True
       | OutOfFuel \<Rightarrow> False)
   \<and> (case elementPhase E e st ck cache accE w of
         Normal r w' \<Rightarrow> infiniteTransformCount w < infiniteTransformCount w'
       | Throws t w' \<Rightarrow> True
       | OutOfFuel \<Rightarrow> False)
   \<and> errorOnInfiniteTransforms w
       = (if 99 < infiniteTransformCount w then Throws (ErrorObject INFINITE_TRANSFORMS) w
          else Normal () w)
   \<and> exitsWith (\<lambda>w'. infiniteTransformCount w' = 0)
       (beginUpdateScope E' n' nested commit e' F updateFn skipTransforms' w0)"
proof (intro conjI impI)
  assume "2 \<le> n \<and> 102 \<le> n + infiniteTransformCount w"
  then have "passesLeft e w \<le> n" by (auto simp: passesLeft_def)
  with assms show "exited (applyAllTransforms E n st e w)"
    by (rule applyAllTransforms_exits)
next
  from leafPhase_guarded [OF assms, where st = st and ck = ck and cache = cache and accL = accL
      and w = w]
  show "case leafPhase E e st ck cache accL w of
         Normal r w' \<Rightarrow>
           if snd (snd r) then infiniteTransformCount w < infiniteTransformCount w' else True
       | Throws t w' \<Rightarrow> True
       | OutOfFuel \<Rightarrow> False"
    by (cases "leafPhase E e st ck cache accL w") (simp_all split: if_splits)
next
  from elementPhase_guarded [OF assms, where st = st and ck = ck and cache = cache
      and accE = accE and w = w]
  show "case elementPhase E e st ck cache accE w of
         Normal r w' \<Rightarrow> infiniteTransformCount w < infiniteTransformCount w'
       | Throws t w' \<Rightarrow> True
       | OutOfFuel \<Rightarrow> False"
    by (cases "elementPhase E e st ck cache accE w") simp_all
next
  show "errorOnInfiniteTransforms w
       = (if 99 < infiniteTransformCount w then Throws (ErrorObject INFINITE_TRANSFORMS) w
          else Normal () w)"
    by (simp add: errorOnInfiniteTransforms_def invariantError_def)
next
  show "exitsWith (\<lambda>w'. infiniteTransformCount w' = 0)
       (beginUpdateScope E' n' nested commit e' F updateFn skipTransforms' w0)"
    by (simp add: beginUpdateScope_def exitsWith_tryFinally beginUpdateFinally_def exitsWith_True)
qed

text \<open>The transform that marks its own node dirty whenever it runs keeps to the hypothesis:
  the run is over within 102 passes, and it is the error of the ceiling that ends it.\<close>

theorem transform_iterations_are_bounded_witness:
  "guardedCollaborators runawayEnv 0
   \<and> exited (applyAllTransforms runawayEnv 102 0 0 runawayWorld)
   \<and> thrownValue (applyAllTransforms runawayEnv 102 0 0 runawayWorld)
       = Some (ErrorObject INFINITE_TRANSFORMS)"
proof -
  have c: "infiniteTransformCount runawayWorld = 0"
    by (simp add: runawayWorld_def blankWorld_def)
  from transform_iterations_are_bounded
    [OF runaway_guarded, where n = 102 and w = runawayWorld and st = 0]
  have "exited (applyAllTransforms runawayEnv 102 0 0 runawayWorld)"
    by (simp add: c)
  with runaway_guarded runaway_throws show ?thesis by simp
qed

text \<open>
  The claim as stated does not hold. The loop does not read the counter: with the transform
  that stops marking its node after a hundred passes the counter exceeds 99 and the run
  returns, with the counter at 101, and no error. And the counter is one for all editors,
  set to 0 by the \<^verbatim>\<open>finally\<close> block of every \<^verbatim>\<open>$beginUpdate\<close>: with the transform that also
  updates editor 1 the counter is 1 at every head of the loop, the check never fails, and the
  run is not over after any number of passes (\<open>resetting_never_returns\<close>), here a thousand.
\<close>

theorem transform_ceiling_is_not_a_bound:
  "returned (applyAllTransforms settlingEnv 102 0 0 runawayWorld)
   \<and> map_option infiniteTransformCount
        (finalWorld (applyAllTransforms settlingEnv 102 0 0 runawayWorld)) = Some 101
   \<and> applyAllTransforms resettingEnv 1000 0 0 runawayWorld = OutOfFuel"
  using settling_returns resetting_never_returns [of 1000] by simp

end
